theory Spec2Isabelle
  imports Complex_Main "HOL-Library.Sublist"
begin

section \<open>Strings and paths\<close>

text \<open>
  Paths, digests and names are Python \<open>str\<close> values; they are modelled as \<open>string\<close>, one
  \<open>char\<close> per character. \<open>str.lower()\<close> is modelled on the ASCII letters (the only ones
  SQLite's \<open>LIKE\<close> folds as well); other characters are left as they are.
\<close>

definition lower_char :: "char \<Rightarrow> char" where
  "lower_char c =
     (case map_of (zip ''ABCDEFGHIJKLMNOPQRSTUVWXYZ'' ''abcdefghijklmnopqrstuvwxyz'') c of
        Some l \<Rightarrow> l
      | None \<Rightarrow> c)"

definition lower :: "string \<Rightarrow> string" where
  "lower s = map lower_char s"

text \<open>Python's \<open>sub in s\<close> on strings: \<open>sub\<close> occurs in \<open>s\<close> as a contiguous run.\<close>

fun contains :: "string \<Rightarrow> string \<Rightarrow> bool" where
  "contains sub [] = (sub = [])"
| "contains sub (c # cs) = (prefix sub (c # cs) \<or> contains sub cs)"

text \<open>
  \<open>os.path.join(root, file)\<close> for two components (POSIX): an absolute second component
  replaces the first, otherwise the two are joined with one separator.
\<close>

definition path_join :: "string \<Rightarrow> string \<Rightarrow> string" where
  "path_join dirpath file =
     (if prefix ''/'' file then file
      else if dirpath = [] \<or> last dirpath = CHR ''/'' then dirpath @ file
      else dirpath @ ''/'' @ file)"

text \<open>
  The second component of \<open>os.path.splitext(p)\<close> (POSIX): the text from the last dot of
  the last path component on, provided some character other than a dot precedes that dot
  within the component; otherwise the empty string.
\<close>

definition basename :: "string \<Rightarrow> string" where
  "basename p = rev (takeWhile (\<lambda>c. c \<noteq> CHR ''/'') (rev p))"

definition splitext_ext :: "string \<Rightarrow> string" where
  "splitext_ext p =
     (let b = basename p;
          tail = rev (takeWhile (\<lambda>c. c \<noteq> CHR ''.'') (rev b));
          stem = rev (drop 1 (dropWhile (\<lambda>c. c \<noteq> CHR ''.'') (rev b)))
      in if CHR ''.'' \<in> set b \<and> dropWhile (\<lambda>c. c = CHR ''.'') stem \<noteq> []
         then CHR ''.'' # tail else [])"

text \<open>
  SQLite's \<open>pattern LIKE text\<close> with the default settings: \<open>%\<close> matches any run of
  characters, \<open>_\<close> matches exactly one character, every other pattern character matches
  itself up to ASCII case; there is no escape character.
\<close>

fun sql_like :: "string \<Rightarrow> string \<Rightarrow> bool" where
  "sql_like [] [] = True"
| "sql_like [] (c # cs) = False"
| "sql_like (p # ps) [] = (p = CHR ''%'' \<and> sql_like ps [])"
| "sql_like (p # ps) (c # cs) =
     (if p = CHR ''%'' then sql_like ps (c # cs) \<or> sql_like (p # ps) cs
      else if p = CHR ''_'' then sql_like ps cs
      else lower_char p = lower_char c \<and> sql_like ps cs)"

section \<open>Configuration and the exclusion filter\<close>

text \<open>
  \<open>CONFIG\<close> is the dictionary loaded from \<open>auditor_config.json\<close>; the two keys read by
  \<open>should_exclude\<close> are its fields here, an absent key being the empty list
  (\<open>CONFIG.get(key, [])\<close>).
\<close>

record config =
  EXCLUSIONS :: "string list"
  EXT_FILTER :: "string list"

definition should_exclude :: "config \<Rightarrow> string \<Rightarrow> bool" where
  "should_exclude cfg file_path =
     (let path_lower = lower file_path in
      if list_ex (\<lambda>exclusion. contains (lower exclusion) path_lower) (EXCLUSIONS cfg) then True
      else if EXT_FILTER cfg \<noteq> [] then
        (if lower (splitext_ext file_path) \<notin> set (EXT_FILTER cfg) then True else False)
      else False)"

section \<open>The record store\<close>

text \<open>
  One row of table \<open>file_hashes\<close>. The column \<open>id\<close> is \<open>row_id\<close> here. \<open>status\<close> is a
  text column; the program only ever writes the three literals \<open>'active'\<close>,
  \<open>'corrupted'\<close> and \<open>'missing'\<close>. \<open>mtime\<close> and \<open>last_seen\<close> are \<open>REAL\<close> columns holding
  the floats of \<open>st_mtime\<close> and \<open>time.time()\<close>; they are stored and compared without
  arithmetic except for \<open>current_time - 3600\<close>, and are modelled as real numbers.
\<close>

datatype status = Active | Corrupted | Missing

record file_row =
  row_id :: nat
  file_path :: string
  file_name :: string
  file_size :: nat
  mtime :: real
  sha256_hash :: string
  last_seen :: real
  status :: status

text \<open>
  The database file: \<open>None\<close> while neither the file nor the table exists, otherwise the
  rows of the table in \<open>id\<close> order. \<open>init_db\<close> connects, which creates the file, and runs
  \<open>CREATE TABLE IF NOT EXISTS\<close>.
\<close>

type_synonym database = "file_row list option"

definition init_db :: "database \<Rightarrow> file_row list" where
  "init_db dbfile = (case dbfile of None \<Rightarrow> [] | Some rows \<Rightarrow> rows)"

text \<open>\<open>SELECT ... WHERE file_path = ?\<close> followed by \<open>fetchone()\<close>.\<close>

definition select_by_path :: "file_row list \<Rightarrow> string \<Rightarrow> file_row option" where
  "select_by_path rows p = find (\<lambda>r. file_path r = p) rows"

text \<open>\<open>SELECT id, file_path ... WHERE sha256_hash = ? AND file_size = ?\<close>, \<open>fetchall()\<close>.\<close>

definition select_by_hash_size :: "file_row list \<Rightarrow> string \<Rightarrow> nat \<Rightarrow> file_row list" where
  "select_by_hash_size rows h sz = filter (\<lambda>r. sha256_hash r = h \<and> file_size r = sz) rows"

text \<open>\<open>UPDATE file_hashes SET ... WHERE id = ?\<close>, the assignments being \<open>f\<close>.\<close>

definition update_by_id :: "file_row list \<Rightarrow> nat \<Rightarrow> (file_row \<Rightarrow> file_row) \<Rightarrow> file_row list" where
  "update_by_id rows i f = map (\<lambda>r. if row_id r = i then f r else r) rows"

text \<open>
  The column \<open>file_path\<close> is \<open>UNIQUE\<close>: a statement that would give two rows the same
  path raises \<open>sqlite3.IntegrityError\<close> and changes nothing (\<open>None\<close> here).
\<close>

definition path_taken :: "file_row list \<Rightarrow> nat option \<Rightarrow> string \<Rightarrow> bool" where
  "path_taken rows except p =
     list_ex (\<lambda>r. file_path r = p \<and> Some (row_id r) \<noteq> except) rows"

definition retarget_by_id ::
  "file_row list \<Rightarrow> nat \<Rightarrow> string \<Rightarrow> (file_row \<Rightarrow> file_row) \<Rightarrow> file_row list option" where
  "retarget_by_id rows i p f =
     (if list_ex (\<lambda>r. row_id r = i) rows \<and> path_taken rows (Some i) p then None
      else Some (update_by_id rows i f))"

text \<open>\<open>AUTOINCREMENT\<close>: a new row gets an id above every id in the table.\<close>

definition next_id :: "file_row list \<Rightarrow> nat" where
  "next_id rows = Suc (foldr max (map row_id rows) 0)"

definition insert_row :: "file_row list \<Rightarrow> file_row \<Rightarrow> file_row list option" where
  "insert_row rows r =
     (if path_taken rows None (file_path r) then None
      else Some (rows @ [r\<lparr>row_id := next_id rows\<rparr>]))"

section \<open>The file system\<close>

text \<open>
  What the audit asks of the operating system, as one snapshot: \<open>os.path.isdir\<close>,
  \<open>os.walk\<close> (the \<open>(root, files)\<close> pairs it yields, in order), \<open>os.stat\<close> (\<open>st_size\<close> and
  \<open>st_mtime\<close>, \<open>None\<close> when it raises), the SHA-256 hex digest of a file's bytes (\<open>None\<close>
  when reading raises \<open>IOError\<close>) and \<open>os.path.exists\<close>.
\<close>

record filesystem =
  isdir :: "string \<Rightarrow> bool"
  walk :: "string \<Rightarrow> (string \<times> string list) list"
  stat :: "string \<Rightarrow> (nat \<times> real) option"
  read_sha256 :: "string \<Rightarrow> string option"
  path_exists :: "string \<Rightarrow> bool"

section \<open>The audit\<close>

datatype log_event =
  ErrorHashing string
| ErrorProcessing string
| BitRotDetected string
| HashChange string string

text \<open>
  The state of one run: the table, the counters of the \<open>stats\<close> dictionary,
  \<open>bitrot_list\<close>, the lines given to \<open>log\<close> inside the loop, and the paths whose content
  was opened by \<open>calculate_sha256\<close>, in order.
\<close>

record audit_state =
  db :: "file_row list"
  scanned :: nat
  skipped_unchanged :: nat
  new_files :: nat
  modified_files :: nat
  moved_files :: nat
  bitrot_detected :: nat
  removed_files :: nat
  errors :: nat
  bitrot_list :: "string list"
  logged :: "log_event list"
  hashed :: "string list"

definition calculate_sha256 ::
  "filesystem \<Rightarrow> string \<Rightarrow> audit_state \<Rightarrow> string option \<times> audit_state" where
  "calculate_sha256 fs p st =
     (case read_sha256 fs p of
        Some h \<Rightarrow> (Some h, st\<lparr>hashed := hashed st @ [p]\<rparr>)
      | None \<Rightarrow> (None, st\<lparr>hashed := hashed st @ [p], logged := logged st @ [ErrorHashing p]\<rparr>))"

text \<open>The \<open>except Exception\<close> handler of the loop body.\<close>

definition processing_error :: "string \<Rightarrow> audit_state \<Rightarrow> audit_state" where
  "processing_error p st = st\<lparr>logged := logged st @ [ErrorProcessing p], errors := errors st + 1\<rparr>"

text \<open>
  The branch \<open>if row:\<close> of the loop body (lines 158 to 182). \<open>not new_hash\<close> is true of
  \<open>None\<close> and of the empty string.
\<close>

definition audit_known ::
  "filesystem \<Rightarrow> real \<Rightarrow> bool \<Rightarrow> string \<Rightarrow> nat \<Rightarrow> real \<Rightarrow> file_row \<Rightarrow> audit_state \<Rightarrow> audit_state" where
  "audit_known fs current_time force_rehash p fsize mt row st =
     (let db_id = row_id row; db_size = file_size row; db_mtime = mtime row;
          db_hash = sha256_hash row
      in if \<not> force_rehash \<and> db_size = fsize \<and> db_mtime = mt then
           st\<lparr>db := update_by_id (db st) db_id
                       (\<lambda>r. r\<lparr>last_seen := current_time, status := Active\<rparr>),
              skipped_unchanged := skipped_unchanged st + 1\<rparr>
         else
           (case calculate_sha256 fs p st of (new_hash, st1) \<Rightarrow>
              (case new_hash of
                 None \<Rightarrow> st1\<lparr>errors := errors st1 + 1\<rparr>
               | Some h \<Rightarrow>
                   if h = [] then st1\<lparr>errors := errors st1 + 1\<rparr>
                   else if \<not> force_rehash \<and> db_size = fsize \<and> db_mtime = mt \<and> h \<noteq> db_hash then
                       st1\<lparr>logged := logged st1 @ [BitRotDetected p, HashChange db_hash h],
                           bitrot_detected := bitrot_detected st1 + 1,
                           bitrot_list := bitrot_list st1 @ [p],
                           db := update_by_id (db st1) db_id
                                   (\<lambda>r. r\<lparr>sha256_hash := h, last_seen := current_time,
                                          status := Corrupted\<rparr>)\<rparr>
                     else
                       st1\<lparr>db := update_by_id (db st1) db_id
                                   (\<lambda>r. r\<lparr>file_size := fsize, mtime := mt, sha256_hash := h,
                                          last_seen := current_time, status := Active\<rparr>),
                           modified_files := modified_files st1 + 1\<rparr>)))"

text \<open>The branch \<open>else:\<close> (no row at this path, lines 184 to 208).\<close>

definition audit_unknown ::
  "filesystem \<Rightarrow> real \<Rightarrow> string \<Rightarrow> string \<Rightarrow> nat \<Rightarrow> real \<Rightarrow> audit_state \<Rightarrow> audit_state" where
  "audit_unknown fs current_time p file fsize mt st =
     (case calculate_sha256 fs p st of (new_hash, st1) \<Rightarrow>
        (case new_hash of
           None \<Rightarrow> st1\<lparr>errors := errors st1 + 1\<rparr>
         | Some h \<Rightarrow>
             if h = [] then st1\<lparr>errors := errors st1 + 1\<rparr>
             else
               (let move_candidates = select_by_hash_size (db st1) h fsize in
                case find (\<lambda>mc. \<not> path_exists fs (file_path mc)) move_candidates of
                  Some mc \<Rightarrow>
                    (case retarget_by_id (db st1) (row_id mc) p
                            (\<lambda>r. r\<lparr>file_path := p, file_name := file, mtime := mt,
                                   last_seen := current_time, status := Active\<rparr>) of
                       None \<Rightarrow> processing_error p st1
                     | Some rows \<Rightarrow> st1\<lparr>db := rows, moved_files := moved_files st1 + 1\<rparr>)
                | None \<Rightarrow>
                    (case insert_row (db st1)
                            \<lparr>row_id = 0, file_path = p, file_name = file, file_size = fsize,
                             mtime = mt, sha256_hash = h, last_seen = current_time,
                             status = Active\<rparr> of
                       None \<Rightarrow> processing_error p st1
                     | Some rows \<Rightarrow> st1\<lparr>db := rows, new_files := new_files st1 + 1\<rparr>))))"

text \<open>The body of \<open>for file in files\<close> for one file of directory \<open>dirpath\<close>.\<close>

definition audit_file ::
  "config \<Rightarrow> filesystem \<Rightarrow> real \<Rightarrow> bool \<Rightarrow> string \<Rightarrow> string \<Rightarrow> audit_state \<Rightarrow> audit_state" where
  "audit_file cfg fs current_time force_rehash dirpath file st =
     (let p = path_join dirpath file in
      if should_exclude cfg p then st
      else
        (let st0 = st\<lparr>scanned := scanned st + 1\<rparr> in
         case stat fs p of
           None \<Rightarrow> processing_error p st0
         | Some (fsize, mt) \<Rightarrow>
             (case select_by_path (db st0) p of
                Some row \<Rightarrow> audit_known fs current_time force_rehash p fsize mt row st0
              | None \<Rightarrow> audit_unknown fs current_time p file fsize mt st0)))"

text \<open>
  The two nested loops over \<open>os.walk(target_dir)\<close>. The \<open>conn.commit()\<close> after each
  directory makes the changes durable and does not change the table.
\<close>

fun audit_files ::
  "config \<Rightarrow> filesystem \<Rightarrow> real \<Rightarrow> bool \<Rightarrow> string \<Rightarrow> string list \<Rightarrow> audit_state \<Rightarrow> audit_state" where
  "audit_files cfg fs current_time force_rehash dirpath [] st = st"
| "audit_files cfg fs current_time force_rehash dirpath (file # files) st =
     audit_files cfg fs current_time force_rehash dirpath files
       (audit_file cfg fs current_time force_rehash dirpath file st)"

fun audit_walk ::
  "config \<Rightarrow> filesystem \<Rightarrow> real \<Rightarrow> bool \<Rightarrow> (string \<times> string list) list \<Rightarrow> audit_state \<Rightarrow> audit_state" where
  "audit_walk cfg fs current_time force_rehash [] st = st"
| "audit_walk cfg fs current_time force_rehash ((dirpath, files) # rest) st =
     audit_walk cfg fs current_time force_rehash rest
       (audit_files cfg fs current_time force_rehash dirpath files st)"

text \<open>The sweep after the walk (lines 217 to 225).\<close>

definition stale_active :: "string \<Rightarrow> real \<Rightarrow> file_row \<Rightarrow> bool" where
  "stale_active target_dir current_time r =
     (sql_like (target_dir @ ''%'') (file_path r) \<and> last_seen r < current_time - 3600
      \<and> status r = Active)"

definition mark_missing :: "filesystem \<Rightarrow> string \<Rightarrow> audit_state \<Rightarrow> audit_state" where
  "mark_missing fs mf st =
     (if \<not> path_exists fs mf then
        st\<lparr>db := map (\<lambda>r. if file_path r = mf then r\<lparr>status := Missing\<rparr> else r) (db st),
           removed_files := removed_files st + 1\<rparr>
      else st)"

definition reconcile :: "filesystem \<Rightarrow> real \<Rightarrow> string \<Rightarrow> audit_state \<Rightarrow> audit_state" where
  "reconcile fs current_time target_dir st =
     (let missing_files = map file_path (filter (stale_active target_dir current_time) (db st))
      in fold (mark_missing fs) missing_files st)"

datatype audit_error = TargetNotADirectory

definition start_state :: "file_row list \<Rightarrow> audit_state" where
  "start_state rows =
     \<lparr>db = rows, scanned = 0, skipped_unchanged = 0, new_files = 0, modified_files = 0,
      moved_files = 0, bitrot_detected = 0, removed_files = 0, errors = 0,
      bitrot_list = [], logged = [], hashed = []\<rparr>"

text \<open>
  \<open>run_audit\<close>: the database file after the call, and either the error that made it
  return at once or the final state, whose counters are the summary it logs.
  \<open>current_time\<close> is the value of \<open>time.time()\<close> read after \<open>init_db\<close>.
\<close>

definition run_audit ::
  "config \<Rightarrow> filesystem \<Rightarrow> real \<Rightarrow> string \<Rightarrow> bool \<Rightarrow> database \<Rightarrow> database \<times> (audit_error + audit_state)" where
  "run_audit cfg fs current_time target_dir force_rehash dbfile =
     (if \<not> isdir fs target_dir then (dbfile, Inl TargetNotADirectory)
      else
        (let st0 = start_state (init_db dbfile);
             st1 = audit_walk cfg fs current_time force_rehash (walk fs target_dir) st0;
             st2 = reconcile fs current_time target_dir st1
         in (Some (db st2), Inr st2)))"

section \<open>Duplicate analysis\<close>

text \<open>
  The known-duplicates file, once parsed: \<open>None\<close> when no file is named, the name is not a
  file, the content is not JSON or is not a list; otherwise its items, of which only the
  keys \<open>hash\<close> and \<open>files\<close> are read. A later item overrides an earlier one for the same
  hash.
\<close>

record known_item =
  item_hash :: "string option"
  item_files :: "string list option"

definition add_known :: "known_item \<Rightarrow> (string \<rightharpoonup> string set) \<Rightarrow> (string \<rightharpoonup> string set)" where
  "add_known item m =
     (case item_hash item of
        None \<Rightarrow> m
      | Some h \<Rightarrow> (case item_files item of None \<Rightarrow> m | Some fl \<Rightarrow> m(h \<mapsto> set fl)))"

definition load_known_dupes :: "known_item list option \<Rightarrow> (string \<rightharpoonup> string set)" where
  "load_known_dupes known_data =
     (case known_data of None \<Rightarrow> Map.empty | Some items \<Rightarrow> fold add_known items Map.empty)"

text \<open>
  One entry of the JSON report and the three accumulators of the loop. The list written
  under \<open>files\<close> is \<open>list(active_paths_set)\<close>, whose order Python leaves open; the
  entry holds the set.
\<close>

record dup_group =
  hash :: string
  size_bytes :: nat
  files :: "string set"

record dup_report =
  result :: "dup_group list"
  total_wasted_space :: nat
  duplicate_count :: nat

text \<open>The \<open>WHERE\<close> clause shared by both queries: \<open>file_path LIKE ? AND status = 'active'\<close>.\<close>

definition in_scope :: "string \<Rightarrow> file_row \<Rightarrow> bool" where
  "in_scope target_dir r = (sql_like (target_dir @ ''%'') (file_path r) \<and> status r = Active)"

text \<open>
  \<open>SELECT sha256_hash, COUNT(*) ... GROUP BY sha256_hash HAVING c > 1\<close>. SQL leaves the
  order of the groups open; here each hash stands where its last row stands.
\<close>

definition duplicate_hashes :: "file_row list \<Rightarrow> string \<Rightarrow> (string \<times> nat) list" where
  "duplicate_hashes rows target_dir =
     (let scoped = filter (in_scope target_dir) rows;
          counted = map (\<lambda>h. (h, length (filter (\<lambda>r. sha256_hash r = h) scoped)))
                      (remdups (map sha256_hash scoped))
      in filter (\<lambda>(h, c). c > 1) counted)"

text \<open>The body of \<open>for (d_hash, count) in duplicate_hashes\<close>.\<close>

definition dup_step ::
  "(string \<rightharpoonup> string set) \<Rightarrow> file_row list \<Rightarrow> string \<Rightarrow> string \<times> nat \<Rightarrow> dup_report \<Rightarrow> dup_report" where
  "dup_step known_dupes_map rows target_dir hc rep =
     (let d_hash = fst hc;
          fl = map (\<lambda>r. (file_path r, file_size r))
                 (filter (\<lambda>r. sha256_hash r = d_hash \<and> status r = Active
                              \<and> sql_like (target_dir @ ''%'') (file_path r)) rows);
          active_files = filter (\<lambda>f. \<not> contains ''/Archive/'' (fst f)) fl;
          active_paths_set = set (map fst active_files)
      in if (case known_dupes_map d_hash of
               None \<Rightarrow> False
             | Some accepted \<Rightarrow> active_paths_set \<subseteq> accepted) then rep
         else if length active_files > 1 then
           (let fsize = snd (active_files ! 0) in
            rep\<lparr>total_wasted_space := total_wasted_space rep + fsize * (length active_files - 1),
                duplicate_count := duplicate_count rep + (length active_files - 1),
                result := result rep @
                  [\<lparr>hash = d_hash, size_bytes = fsize, files = active_paths_set\<rparr>]\<rparr>)
         else rep)"

text \<open>
  \<open>find_duplicates\<close>: the database file after the call and the report written. The
  target directory is used only to build the \<open>LIKE\<close> pattern.
\<close>

definition find_duplicates ::
  "string \<Rightarrow> known_item list option \<Rightarrow> database \<Rightarrow> database \<times> dup_report" where
  "find_duplicates target_dir known_data dbfile =
     (let known_dupes_map = load_known_dupes known_data;
          rows = init_db dbfile;
          rep = fold (dup_step known_dupes_map rows target_dir) (duplicate_hashes rows target_dir)
                  \<lparr>result = [], total_wasted_space = 0, duplicate_count = 0\<rparr>
      in (Some rows, rep))"

section \<open>Properties of the store used in the statements\<close>

text \<open>
  The constraints the table declares: \<open>file_path TEXT UNIQUE\<close> and
  \<open>id INTEGER PRIMARY KEY\<close>.
\<close>

definition store_ok :: "file_row list \<Rightarrow> bool" where
  "store_ok rows \<longleftrightarrow> distinct (map file_path rows) \<and> distinct (map row_id rows)"

definition no_corrupted :: "file_row list \<Rightarrow> bool" where
  "no_corrupted rows \<longleftrightarrow> list_all (\<lambda>r. status r \<noteq> Corrupted) rows"

text \<open>
  A row that makes a file with digest \<open>h\<close> and size \<open>fsize\<close> a move: same digest, same
  size, and a recorded path that is no longer on disk.
\<close>

definition vacated_match :: "filesystem \<Rightarrow> string \<Rightarrow> nat \<Rightarrow> file_row \<Rightarrow> bool" where
  "vacated_match fs h fsize r \<longleftrightarrow>
     sha256_hash r = h \<and> file_size r = fsize \<and> \<not> path_exists fs (file_path r)"

text \<open>
  The table holds a row for path \<open>p\<close> with the size and modification time that \<open>os.stat\<close>
  reports for \<open>p\<close> now.
\<close>

definition synced :: "filesystem \<Rightarrow> file_row list \<Rightarrow> string \<Rightarrow> bool" where
  "synced fs rows p \<longleftrightarrow>
     list_ex (\<lambda>r. file_path r = p \<and> stat fs p = Some (file_size r, mtime r)) rows"

text \<open>
  A readable file: \<open>os.stat\<close> succeeds, its content can be hashed, and the path exists.
  A tree of readable files: every file the walk yields is excluded by the filter or
  readable.
\<close>

definition readable :: "filesystem \<Rightarrow> string \<Rightarrow> bool" where
  "readable fs p \<longleftrightarrow>
     stat fs p \<noteq> None \<and> (case read_sha256 fs p of None \<Rightarrow> False | Some h \<Rightarrow> h \<noteq> [])
     \<and> path_exists fs p"

definition readable_tree :: "config \<Rightarrow> filesystem \<Rightarrow> string \<Rightarrow> bool" where
  "readable_tree cfg fs target_dir \<longleftrightarrow>
     list_all (\<lambda>(d, fl).
        list_all (\<lambda>file. should_exclude cfg (path_join d file) \<or> readable fs (path_join d file)) fl)
       (walk fs target_dir)"

text \<open>The ids of the rows whose status is \<open>'missing'\<close>.\<close>

definition missing_ids :: "file_row list \<Rightarrow> nat set" where
  "missing_ids rows = set (map row_id (filter (\<lambda>r. status r = Missing) rows))"

section \<open>The duplicate report as grouping and filtering\<close>

text \<open>
  The report described by its content rather than by the loop that builds it: the hashes
  of the active rows matched by the target pattern; the members of the group of a hash
  (active, matched by the target pattern, without the marker \<open>/Archive/\<close> in the
  path); the report entry and the wasted space of a group; when a group is covered by
  the known-duplicates map; which groups are kept; and the report as a whole.
\<close>

definition spec_hashes :: "string \<Rightarrow> file_row list \<Rightarrow> string list" where
  "spec_hashes target_dir rows = remdups (map sha256_hash (filter (in_scope target_dir) rows))"

definition spec_members :: "string \<Rightarrow> file_row list \<Rightarrow> string \<Rightarrow> file_row list" where
  "spec_members target_dir rows h =
     filter (\<lambda>r. sha256_hash r = h \<and> in_scope target_dir r
                 \<and> \<not> contains ''/Archive/'' (file_path r)) rows"

definition spec_group :: "string \<Rightarrow> file_row list \<Rightarrow> string \<Rightarrow> dup_group" where
  "spec_group target_dir rows h =
     \<lparr>hash = h, size_bytes = file_size (hd (spec_members target_dir rows h)),
      files = set (map file_path (spec_members target_dir rows h))\<rparr>"

definition spec_wasted :: "string \<Rightarrow> file_row list \<Rightarrow> string \<Rightarrow> nat" where
  "spec_wasted target_dir rows h =
     file_size (hd (spec_members target_dir rows h))
       * (length (spec_members target_dir rows h) - 1)"

definition spec_suppressed ::
  "(string \<rightharpoonup> string set) \<Rightarrow> string \<Rightarrow> file_row list \<Rightarrow> string \<Rightarrow> bool" where
  "spec_suppressed known target_dir rows h =
     (case known h of
        None \<Rightarrow> False
      | Some accepted \<Rightarrow> set (map file_path (spec_members target_dir rows h)) \<subseteq> accepted)"

definition spec_keep ::
  "(string \<rightharpoonup> string set) \<Rightarrow> string \<Rightarrow> file_row list \<Rightarrow> string \<Rightarrow> bool" where
  "spec_keep known target_dir rows h \<longleftrightarrow>
     \<not> spec_suppressed known target_dir rows h \<and> 1 < length (spec_members target_dir rows h)"

definition spec_report ::
  "(string \<rightharpoonup> string set) \<Rightarrow> string \<Rightarrow> file_row list \<Rightarrow> dup_report" where
  "spec_report known target_dir rows =
     (let reported = filter (spec_keep known target_dir rows) (spec_hashes target_dir rows)
      in \<lparr>result = map (spec_group target_dir rows) reported,
          total_wasted_space = sum_list (map (spec_wasted target_dir rows) reported),
          duplicate_count =
            sum_list (map (\<lambda>h. length (spec_members target_dir rows h) - 1) reported)\<rparr>)"

section \<open>A small tree and store for concrete runs\<close>

text \<open>
  Directory \<open>/data\<close> with one file \<open>a.txt\<close> (\<open>fs_one\<close>) or with \<open>a.txt\<close> and a
  byte-identical \<open>b.txt\<close> (\<open>fs_two\<close>).
\<close>

definition example_cfg :: config where
  "example_cfg = \<lparr>EXCLUSIONS = [''.git/''], EXT_FILTER = []\<rparr>"

definition fs_one :: filesystem where
  "fs_one =
     \<lparr>isdir = (\<lambda>p. p = ''/data''),
      walk = (\<lambda>p. if p = ''/data'' then [(''/data'', [''a.txt''])] else []),
      stat = (\<lambda>p. if p = ''/data/a.txt'' then Some (10, 5) else None),
      read_sha256 = (\<lambda>p. if p = ''/data/a.txt'' then Some ''h2'' else None),
      path_exists = (\<lambda>p. p = ''/data'' \<or> p = ''/data/a.txt'')\<rparr>"

definition fs_two :: filesystem where
  "fs_two =
     \<lparr>isdir = (\<lambda>p. p = ''/data''),
      walk = (\<lambda>p. if p = ''/data'' then [(''/data'', [''a.txt'', ''b.txt''])] else []),
      stat = (\<lambda>p. if p = ''/data/a.txt'' then Some (10, 5)
                   else if p = ''/data/b.txt'' then Some (10, 7) else None),
      read_sha256 = (\<lambda>p. if p = ''/data/a.txt'' \<or> p = ''/data/b.txt'' then Some ''h2'' else None),
      path_exists = (\<lambda>p. p = ''/data'' \<or> p = ''/data/a.txt'' \<or> p = ''/data/b.txt'')\<rparr>"

definition row_a :: "string \<Rightarrow> file_row" where
  "row_a h =
     \<lparr>row_id = 1, file_path = ''/data/a.txt'', file_name = ''a.txt'', file_size = 10, mtime = 5,
      sha256_hash = h, last_seen = 100, status = Active\<rparr>"

definition row_old :: file_row where
  "row_old =
     \<lparr>row_id = 1, file_path = ''/data/old.txt'', file_name = ''old.txt'', file_size = 10,
      mtime = 3, sha256_hash = ''h2'', last_seen = 100, status = Active\<rparr>"

definition row_b :: file_row where
  "row_b =
     \<lparr>row_id = 2, file_path = ''/data/b.txt'', file_name = ''b.txt'', file_size = 10, mtime = 7,
      sha256_hash = ''h2'', last_seen = 100, status = Active\<rparr>"

text \<open>
  An empty directory \<open>/mnt/backup\<close>, and a row for any path: the rows used with it are
  for files that are no longer on disk.
\<close>

definition fs_backup :: filesystem where
  "fs_backup =
     \<lparr>isdir = (\<lambda>p. p = ''/mnt/backup''),
      walk = (\<lambda>p. if p = ''/mnt/backup'' then [(''/mnt/backup'', [])] else []),
      stat = (\<lambda>p. None),
      read_sha256 = (\<lambda>p. None),
      path_exists = (\<lambda>p. p = ''/mnt/backup'')\<rparr>"

definition row_at :: "nat \<Rightarrow> string \<Rightarrow> file_row" where
  "row_at i p =
     \<lparr>row_id = i, file_path = p, file_name = basename p, file_size = 10, mtime = 3,
      sha256_hash = ''h2'', last_seen = 100, status = Active\<rparr>"

text \<open>
  Rows for the duplicate analysis: \<open>A\<close> and \<open>B\<close> with hash \<open>H\<close> and size 100, \<open>C\<close> with
  hash \<open>H2\<close> and size 50, all active, none archival.
\<close>

definition dup_row :: "nat \<Rightarrow> string \<Rightarrow> nat \<Rightarrow> string \<Rightarrow> file_row" where
  "dup_row i p sz h =
     \<lparr>row_id = i, file_path = p, file_name = basename p, file_size = sz, mtime = 3,
      sha256_hash = h, last_seen = 100, status = Active\<rparr>"

definition three_rows :: "file_row list" where
  "three_rows =
     [dup_row 1 ''/data/A'' 100 ''H'', dup_row 2 ''/data/B'' 100 ''H'',
      dup_row 3 ''/data/C'' 50 ''H2'']"

section \<open>The exclusion filter\<close>



section \<open>Invariants of a run\<close>

text \<open>A property kept by the loop body is kept by both loops, and likewise for the sweep.\<close>

lemma audit_files_preserves:
  assumes step: "\<And>file s. P s \<Longrightarrow> P (audit_file cfg fs t force d file s)"
    and init: "P st"
  shows "P (audit_files cfg fs t force d fl st)"
  using init by (induction fl arbitrary: st) (auto intro: step)

lemma audit_walk_preserves:
  assumes step: "\<And>d file s. P s \<Longrightarrow> P (audit_file cfg fs t force d file s)"
    and init: "P st"
  shows "P (audit_walk cfg fs t force w st)"
  using init
proof (induction w arbitrary: st)
  case Nil
  then show ?case by simp
next
  case (Cons a w)
  obtain d fl where a: "a = (d, fl)" by (cases a)
  have "P (audit_files cfg fs t force d fl st)"
    by (rule audit_files_preserves [where P = P]) (auto intro: step Cons.prems)
  then show ?case unfolding a by (simp add: Cons.IH)
qed

lemma reconcile_preserves:
  assumes step: "\<And>mf s. P s \<Longrightarrow> P (mark_missing fs mf s)"
    and init: "P st"
  shows "P (reconcile fs t target st)"
proof -
  have "P (fold (mark_missing fs) ps st)" for ps
    using init by (induction ps arbitrary: st) (auto intro: step)
  then show ?thesis by (simp add: reconcile_def)
qed

subsection \<open>No row becomes corrupted\<close>

lemma no_corrupted_update:
  assumes "no_corrupted rows" and "\<And>r. status r \<noteq> Corrupted \<Longrightarrow> status (f r) \<noteq> Corrupted"
  shows "no_corrupted (update_by_id rows i f)"
  using assms by (induction rows) (auto simp: no_corrupted_def update_by_id_def)

lemma audit_known_bitrot:
  "bitrot_detected (audit_known fs t force p fsize mt row st) = bitrot_detected st"
  by (auto simp: audit_known_def Let_def calculate_sha256_def split: option.splits)

lemma audit_known_no_corrupted:
  "no_corrupted (db st) \<Longrightarrow> no_corrupted (db (audit_known fs t force p fsize mt row st))"
  by (auto simp: audit_known_def Let_def calculate_sha256_def no_corrupted_update
      split: option.splits)

lemma audit_unknown_bitrot:
  "bitrot_detected (audit_unknown fs t p file fsize mt st) = bitrot_detected st"
  by (auto simp: audit_unknown_def Let_def calculate_sha256_def processing_error_def
      split: option.splits)

lemma audit_unknown_no_corrupted:
  "no_corrupted (db st) \<Longrightarrow> no_corrupted (db (audit_unknown fs t p file fsize mt st))"
  by (auto simp: audit_unknown_def Let_def calculate_sha256_def processing_error_def
      retarget_by_id_def insert_row_def no_corrupted_update
      split: option.splits if_splits)
     (simp add: no_corrupted_def)

lemma audit_file_bitrot_free:
  "no_corrupted (db st) \<and> bitrot_detected st = 0 \<Longrightarrow>
   no_corrupted (db (audit_file cfg fs t force d file st))
   \<and> bitrot_detected (audit_file cfg fs t force d file st) = 0"
  by (auto simp: audit_file_def Let_def processing_error_def audit_known_bitrot
      audit_known_no_corrupted audit_unknown_bitrot audit_unknown_no_corrupted
      split: option.splits)

lemma mark_missing_bitrot_free:
  "no_corrupted (db st) \<and> bitrot_detected st = 0 \<Longrightarrow>
   no_corrupted (db (mark_missing fs mf st)) \<and> bitrot_detected (mark_missing fs mf st) = 0"
  by (auto simp: mark_missing_def no_corrupted_def list_all_iff)

section \<open>Queries and updates on a well-formed table\<close>

lemma find_filter: "find P (filter Q xs) = find (\<lambda>x. Q x \<and> P x) xs"
  by (induction xs) auto

lemma select_by_path_None: "select_by_path rows p = None \<longleftrightarrow> p \<notin> file_path ` set rows"
  by (auto simp: select_by_path_def find_None_iff)

lemma select_by_path_SomeD:
  "select_by_path rows p = Some row \<Longrightarrow> row \<in> set rows \<and> file_path row = p"
  by (auto simp: select_by_path_def find_Some_iff)

lemma not_path_taken: "p \<notin> file_path ` set rows \<Longrightarrow> \<not> path_taken rows ex p"
  by (auto simp: path_taken_def list_ex_iff)

lemma store_ok_same_id:
  "store_ok rows \<Longrightarrow> r \<in> set rows \<Longrightarrow> r' \<in> set rows \<Longrightarrow> row_id r = row_id r' \<longleftrightarrow> r = r'"
  by (auto simp: store_ok_def distinct_map dest: inj_onD)

lemma store_ok_same_path:
  "store_ok rows \<Longrightarrow> r \<in> set rows \<Longrightarrow> r' \<in> set rows \<Longrightarrow> file_path r = file_path r' \<longleftrightarrow> r = r'"
  by (auto simp: store_ok_def distinct_map dest: inj_onD)

lemma update_by_id_row:
  assumes "store_ok rows" "row \<in> set rows"
  shows "update_by_id rows (row_id row) f = map (\<lambda>r. if r = row then f r else r) rows"
  unfolding update_by_id_def using assms by (intro map_cong refl) (simp add: store_ok_same_id)

lemma update_by_id_path:
  assumes "store_ok rows" "row \<in> set rows"
  shows "update_by_id rows (row_id row) f =
         map (\<lambda>r. if file_path r = file_path row then f r else r) rows"
  unfolding update_by_id_def using assms
  by (intro map_cong refl) (simp add: store_ok_same_id store_ok_same_path)

lemma next_id_above: "r \<in> set rows \<Longrightarrow> row_id r < next_id rows"
  by (induction rows) (auto simp: next_id_def)

lemma next_id_fresh: "next_id rows \<notin> row_id ` set rows"
  using next_id_above by fastforce

lemma insert_row_fresh:
  "p \<notin> file_path ` set rows \<Longrightarrow> file_path r = p \<Longrightarrow>
   insert_row rows r = Some (rows @ [r\<lparr>row_id := next_id rows\<rparr>])"
  by (simp add: insert_row_def not_path_taken)

lemma retarget_fresh:
  "p \<notin> file_path ` set rows \<Longrightarrow> retarget_by_id rows i p f = Some (update_by_id rows i f)"
  by (simp add: retarget_by_id_def not_path_taken)

lemma count_one: "distinct xs \<Longrightarrow> x \<in> set xs \<Longrightarrow> length (filter (\<lambda>y. y = x) xs) = 1"
  by (induction xs) (auto simp: filter_empty_conv)

lemma store_ok_distinct: "store_ok rows \<Longrightarrow> distinct rows"
  by (auto simp: store_ok_def distinct_map)

section \<open>The table stays well formed\<close>

lemma audit_files_preserves_mem:
  assumes step: "\<And>file s. file \<in> set fl \<Longrightarrow> P s \<Longrightarrow> P (audit_file cfg fs t force d file s)"
    and init: "P st"
  shows "P (audit_files cfg fs t force d fl st)"
  using assms by (induction fl arbitrary: st) auto

lemma audit_walk_preserves_mem:
  assumes step: "\<And>d fl file s. (d, fl) \<in> set w \<Longrightarrow> file \<in> set fl \<Longrightarrow> P s \<Longrightarrow>
                   P (audit_file cfg fs t force d file s)"
    and init: "P st"
  shows "P (audit_walk cfg fs t force w st)"
  using assms
proof (induction w arbitrary: st)
  case Nil
  then show ?case by simp
next
  case (Cons a w)
  obtain d fl where a: "a = (d, fl)" by (cases a)
  have "P (audit_files cfg fs t force d fl st)"
    by (rule audit_files_preserves_mem [where P = P]) (auto intro: Cons.prems simp: a)
  then have "P (audit_walk cfg fs t force w (audit_files cfg fs t force d fl st))"
    by (rule Cons.IH [rotated]) (auto intro: Cons.prems(1))
  then show ?case unfolding a by simp
qed

lemma update_by_id_paths:
  "(\<And>r. file_path (f r) = file_path r) \<Longrightarrow>
   map file_path (update_by_id rows i f) = map file_path rows"
  by (simp add: update_by_id_def)

lemma update_by_id_ids:
  "(\<And>r. row_id (f r) = row_id r) \<Longrightarrow> map row_id (update_by_id rows i f) = map row_id rows"
  by (simp add: update_by_id_def)

lemma store_ok_update:
  assumes "store_ok rows" "\<And>r. file_path (f r) = file_path r" "\<And>r. row_id (f r) = row_id r"
  shows "store_ok (update_by_id rows i f)"
  using assms by (simp add: store_ok_def update_by_id_paths update_by_id_ids)

lemma retarget_paths_subset:
  "(\<And>r. file_path (f r) = p) \<Longrightarrow>
   set (map file_path (update_by_id rows i f)) \<subseteq> insert p (set (map file_path rows))"
  by (auto simp: update_by_id_def)

lemma retarget_distinct_paths:
  assumes "\<And>r. file_path (f r) = p"
  shows "distinct (map file_path rows) \<Longrightarrow> distinct (map row_id rows) \<Longrightarrow>
         p \<notin> set (map file_path rows) \<Longrightarrow> distinct (map file_path (update_by_id rows i f))"
proof (induction rows)
  case Nil
  then show ?case by (simp add: update_by_id_def)
next
  case (Cons r rows)
  have IH: "distinct (map file_path (update_by_id rows i f))"
    using Cons by simp
  show ?case
  proof (cases "row_id r = i")
    case True
    then have "\<forall>x \<in> set rows. row_id x \<noteq> i" using Cons.prems(2) by (auto simp: image_iff)
    then have "update_by_id rows i f = rows"
      by (simp add: update_by_id_def map_idI)
    with True Cons.prems assms show ?thesis by (simp add: update_by_id_def)
  next
    case False
    have "file_path r \<notin> insert p (set (map file_path rows))"
      using Cons.prems by auto
    with retarget_paths_subset [of f p rows i, OF assms]
    have "file_path r \<notin> set (map file_path (update_by_id rows i f))" by blast
    with False IH show ?thesis by (simp add: update_by_id_def)
  qed
qed

lemma store_ok_retarget:
  assumes "store_ok rows" "p \<notin> file_path ` set rows"
    "\<And>r. file_path (f r) = p" "\<And>r. row_id (f r) = row_id r"
  shows "store_ok (update_by_id rows i f)"
  using assms retarget_distinct_paths [of f p rows i]
  by (simp add: store_ok_def update_by_id_ids)

lemma store_ok_append:
  assumes "store_ok rows" "file_path r \<notin> file_path ` set rows" "row_id r = next_id rows"
  shows "store_ok (rows @ [r])"
  using assms next_id_fresh [of rows] by (simp add: store_ok_def)

lemma store_ok_audit_known:
  "store_ok (db st) \<Longrightarrow> store_ok (db (audit_known fs t force p fsize mt row st))"
  by (auto simp: audit_known_def Let_def calculate_sha256_def store_ok_update
      split: option.splits)

lemma store_ok_audit_unknown:
  assumes "store_ok (db st)" "p \<notin> file_path ` set (db st)"
  shows "store_ok (db (audit_unknown fs t p file fsize mt st))"
  using assms
  by (auto simp: audit_unknown_def Let_def calculate_sha256_def processing_error_def
      retarget_fresh insert_row_fresh store_ok_retarget store_ok_append
      split: option.splits)

lemma store_ok_audit_file:
  "store_ok (db st) \<Longrightarrow> store_ok (db (audit_file cfg fs t force d file st))"
  by (auto simp: audit_file_def Let_def processing_error_def store_ok_audit_known
      store_ok_audit_unknown select_by_path_None split: option.splits)

lemma status_update_keeps:
  "file_path \<circ> (\<lambda>r. if c r then r\<lparr>status := s\<rparr> else r) = file_path"
  "row_id \<circ> (\<lambda>r. if c r then r\<lparr>status := s\<rparr> else r) = row_id"
  by auto

lemma store_ok_mark_missing:
  "store_ok (db st) \<Longrightarrow> store_ok (db (mark_missing fs mf st))"
  by (simp add: mark_missing_def store_ok_def status_update_keeps)

section \<open>Rows in step with the disk\<close>

lemma synced_iff:
  "synced fs rows q \<longleftrightarrow>
     (\<exists>r \<in> set rows. file_path r = q \<and> stat fs q = Some (file_size r, mtime r))"
  by (simp add: synced_def list_ex_iff)

lemma synced_map:
  assumes "synced fs rows q"
    and "\<And>r. r \<in> set rows \<Longrightarrow> file_path r = q \<Longrightarrow> stat fs q = Some (file_size r, mtime r) \<Longrightarrow>
           file_path (g r) = q \<and> stat fs q = Some (file_size (g r), mtime (g r))"
  shows "synced fs (map g rows) q"
proof -
  from assms(1) obtain r where r: "r \<in> set rows" "file_path r = q"
    "stat fs q = Some (file_size r, mtime r)"
    by (auto simp: synced_iff)
  from assms(2) [OF r] r(1) show ?thesis
    unfolding synced_iff by (intro bexI [of _ "g r"]) auto
qed

lemma synced_append: "synced fs rows q \<Longrightarrow> synced fs (rows @ [x]) q"
  by (auto simp: synced_iff)

lemma synced_audit_known:
  assumes ok: "store_ok (db st)" and row: "row \<in> set (db st)" "file_path row = p"
    and stat: "stat fs p = Some (fsize, mt)" and q: "synced fs (db st) q"
  shows "synced fs (db (audit_known fs t force p fsize mt row st)) q"
proof -
  have keep: "synced fs (update_by_id (db st) (row_id row) f) q"
    if "\<And>r. file_path (f r) = file_path r \<and> file_size (f r) = file_size r \<and> mtime (f r) = mtime r"
    for f
    unfolding update_by_id_def using q that by (intro synced_map) auto
  have mod: "synced fs (update_by_id (db st) (row_id row) f) q"
    if f: "\<And>r. file_path (f r) = file_path r \<and> file_size (f r) = fsize \<and> mtime (f r) = mt"
    for f
    unfolding update_by_id_def using q
  proof (rule synced_map)
    fix r assume r: "r \<in> set (db st)" "file_path r = q" "stat fs q = Some (file_size r, mtime r)"
    show "file_path (if row_id r = row_id row then f r else r) = q \<and>
          stat fs q = Some (file_size (if row_id r = row_id row then f r else r),
                            mtime (if row_id r = row_id row then f r else r))"
    proof (cases "row_id r = row_id row")
      case True
      then have "r = row" using store_ok_same_id [OF ok r(1) row(1)] by simp
      with True r row stat f show ?thesis by simp
    next
      case False
      with r show ?thesis by simp
    qed
  qed
  show ?thesis
    using q by (auto simp: audit_known_def Let_def calculate_sha256_def keep mod
        split: option.splits)
qed

lemma synced_audit_unknown:
  assumes ok: "store_ok (db st)" and fresh: "p \<notin> file_path ` set (db st)"
    and ex: "path_exists fs q" and q: "synced fs (db st) q"
  shows "synced fs (db (audit_unknown fs t p file fsize mt st)) q"
proof -
  have moved: "synced fs (update_by_id (db st) (row_id mc) f) q"
    if mc: "find (\<lambda>mc. \<not> path_exists fs (file_path mc)) (select_by_hash_size (db st) h fsize)
            = Some mc"
    for mc h f
    unfolding update_by_id_def using q
  proof (rule synced_map)
    fix r assume r: "r \<in> set (db st)" "file_path r = q" "stat fs q = Some (file_size r, mtime r)"
    from mc have m: "mc \<in> set (db st)" "\<not> path_exists fs (file_path mc)"
      by (auto simp: find_Some_iff select_by_hash_size_def dest: nth_mem)
    have "row_id r \<noteq> row_id mc"
    proof
      assume "row_id r = row_id mc"
      then have "r = mc" using store_ok_same_id [OF ok r(1) m(1)] by simp
      with r(2) m(2) ex show False by simp
    qed
    with r show "file_path (if row_id r = row_id mc then f r else r) = q \<and>
          stat fs q = Some (file_size (if row_id r = row_id mc then f r else r),
                            mtime (if row_id r = row_id mc then f r else r))"
      by simp
  qed
  show ?thesis
    using q fresh
    by (auto simp: audit_unknown_def Let_def calculate_sha256_def processing_error_def
        retarget_fresh insert_row_fresh moved synced_append split: option.splits)
qed

lemma synced_audit_file:
  assumes ok: "store_ok (db st)" and ex: "path_exists fs q" and q: "synced fs (db st) q"
  shows "synced fs (db (audit_file cfg fs t force d file st)) q"
proof (cases "should_exclude cfg (path_join d file)")
  case True
  then show ?thesis using q by (simp add: audit_file_def)
next
  case False
  let ?p = "path_join d file"
  let ?st0 = "st\<lparr>scanned := scanned st + 1\<rparr>"
  show ?thesis
  proof (cases "stat fs ?p")
    case None
    with False q show ?thesis by (simp add: audit_file_def Let_def processing_error_def)
  next
    case (Some sm)
    obtain fsize mt where sm: "sm = (fsize, mt)" by (cases sm)
    show ?thesis
    proof (cases "select_by_path (db st) ?p")
      case None
      then have "?p \<notin> file_path ` set (db ?st0)" by (simp add: select_by_path_None)
      then have "synced fs (db (audit_unknown fs t ?p file fsize mt ?st0)) q"
        by (intro synced_audit_unknown) (use ok q ex in simp_all)
      with False Some sm None show ?thesis by (simp add: audit_file_def Let_def)
    next
      case (Some row)
      then have row: "row \<in> set (db ?st0)" "file_path row = ?p"
        by (auto dest: select_by_path_SomeD)
      then have "synced fs (db (audit_known fs t force ?p fsize mt row ?st0)) q"
        by (intro synced_audit_known) (use ok q \<open>stat fs ?p = Some sm\<close> sm in simp_all)
      with False \<open>stat fs ?p = Some sm\<close> sm Some show ?thesis
        by (simp add: audit_file_def Let_def)
    qed
  qed
qed

lemma audit_file_fast_path:
  assumes "store_ok (db st)"
    and "\<not> should_exclude cfg (path_join d file)"
    and "stat fs (path_join d file) = Some (fsize, mt)"
    and "select_by_path (db st) (path_join d file) = Some row"
    and "\<not> force" and "file_size row = fsize" and "mtime row = mt"
  shows "audit_file cfg fs t force d file st =
           st\<lparr>scanned := scanned st + 1,
              db := map (\<lambda>r. if file_path r = path_join d file
                              then r\<lparr>last_seen := t, status := Active\<rparr> else r) (db st),
              skipped_unchanged := skipped_unchanged st + 1\<rparr>"
proof -
  from assms(4) have row: "row \<in> set (db st)" "file_path row = path_join d file"
    by (auto dest: select_by_path_SomeD)
  show ?thesis
    using assms row
    by (simp add: audit_file_def audit_known_def Let_def update_by_id_path [OF assms(1) row(1)])
qed

lemma synced_select:
  assumes ok: "store_ok rows" and s: "synced fs rows p"
  shows "\<exists>row. select_by_path rows p = Some row \<and> stat fs p = Some (file_size row, mtime row)"
proof -
  from s obtain r where r: "r \<in> set rows" "file_path r = p"
    "stat fs p = Some (file_size r, mtime r)"
    by (auto simp: synced_iff)
  then have "select_by_path rows p \<noteq> None"
    by (auto simp: select_by_path_None)
  then obtain row where row: "select_by_path rows p = Some row" by auto
  then have "row \<in> set rows" "file_path row = p" by (auto dest: select_by_path_SomeD)
  with store_ok_same_path [OF ok this(1) r(1)] r have "row = r" by simp
  with row r show ?thesis by simp
qed

lemma synced_self:
  assumes ok: "store_ok (db st)" and nex: "\<not> should_exclude cfg (path_join d file)"
    and rd: "readable fs (path_join d file)"
  shows "synced fs (db (audit_file cfg fs t force d file st)) (path_join d file)"
proof -
  let ?p = "path_join d file"
  let ?st0 = "st\<lparr>scanned := scanned st + 1\<rparr>"
  from rd obtain fsize mt h where stat: "stat fs ?p = Some (fsize, mt)"
    and hash: "read_sha256 fs ?p = Some h" "h \<noteq> []"
    by (auto simp: readable_def split: option.splits)
  show ?thesis
  proof (cases "select_by_path (db st) ?p")
    case None
    then have fresh: "?p \<notin> file_path ` set (db st)" by (simp add: select_by_path_None)
    have "synced fs (db (audit_unknown fs t ?p file fsize mt ?st0)) ?p"
    proof (cases "find (\<lambda>mc. \<not> path_exists fs (file_path mc))
                    (select_by_hash_size (db st) h fsize)")
      case None
      with hash fresh stat show ?thesis
        by (simp add: audit_unknown_def calculate_sha256_def Let_def insert_row_fresh synced_iff)
    next
      case (Some mc)
      then have mc: "mc \<in> set (db st)" "file_size mc = fsize"
        by (auto simp: find_Some_iff select_by_hash_size_def dest: nth_mem)
      let ?f = "\<lambda>r. r\<lparr>file_path := ?p, file_name := file, mtime := mt, last_seen := t,
                   status := Active\<rparr>"
      have "?f mc \<in> set (update_by_id (db st) (row_id mc) ?f)"
        using mc(1) by (force simp: update_by_id_def)
      then have "synced fs (update_by_id (db st) (row_id mc) ?f) ?p"
        unfolding synced_iff using stat mc(2) by (intro bexI [of _ "?f mc"]) auto
      with hash fresh Some show ?thesis
        by (simp add: audit_unknown_def calculate_sha256_def Let_def retarget_fresh)
    qed
    with nex stat None show ?thesis by (simp add: audit_file_def Let_def)
  next
    case (Some row)
    then have row: "row \<in> set (db st)" "file_path row = ?p"
      by (auto dest: select_by_path_SomeD)
    have in_upd: "f row \<in> set (update_by_id (db st) (row_id row) f)" for f
      using row(1) by (force simp: update_by_id_def)
    have upd: "synced fs (update_by_id (db st) (row_id row) f) ?p"
      if "file_path (f row) = ?p" "file_size (f row) = fsize" "mtime (f row) = mt" for f
      unfolding synced_iff using stat that in_upd [of f] by (intro bexI [of _ "f row"]) auto
    have "synced fs (db (audit_known fs t force ?p fsize mt row ?st0)) ?p"
      using hash row by (auto simp: audit_known_def calculate_sha256_def Let_def intro!: upd)
    with nex stat Some show ?thesis by (simp add: audit_file_def Let_def)
  qed
qed

lemma store_ok_audit_files:
  "store_ok (db st) \<Longrightarrow> store_ok (db (audit_files cfg fs t force d fl st))"
  by (rule audit_files_preserves_mem [where P = "\<lambda>s. store_ok (db s)"])
     (auto intro: store_ok_audit_file)

lemma store_ok_audit_walk:
  "store_ok (db st) \<Longrightarrow> store_ok (db (audit_walk cfg fs t force w st))"
  by (rule audit_walk_preserves_mem [where P = "\<lambda>s. store_ok (db s)"])
     (auto intro: store_ok_audit_file)

lemma synced_kept_audit_files:
  assumes "store_ok (db st)" "path_exists fs q" "synced fs (db st) q"
  shows "synced fs (db (audit_files cfg fs t force d fl st)) q"
proof -
  let ?P = "\<lambda>s. store_ok (db s) \<and> synced fs (db s) q"
  have "?P (audit_files cfg fs t force d fl st)"
    by (rule audit_files_preserves_mem [where P = ?P])
       (use assms in \<open>auto intro: store_ok_audit_file synced_audit_file\<close>)
  then show ?thesis by simp
qed

lemma synced_kept_audit_walk:
  assumes "store_ok (db st)" "path_exists fs q" "synced fs (db st) q"
  shows "synced fs (db (audit_walk cfg fs t force w st)) q"
proof -
  let ?P = "\<lambda>s. store_ok (db s) \<and> synced fs (db s) q"
  have "?P (audit_walk cfg fs t force w st)"
    by (rule audit_walk_preserves_mem [where P = ?P])
       (use assms in \<open>auto intro: store_ok_audit_file synced_audit_file\<close>)
  then show ?thesis by simp
qed

lemma audit_files_synced:
  assumes "store_ok (db st)"
    and "list_all (\<lambda>file. should_exclude cfg (path_join d file) \<or> readable fs (path_join d file)) fl"
    and "file \<in> set fl" and "\<not> should_exclude cfg (path_join d file)"
  shows "synced fs (db (audit_files cfg fs t force d fl st)) (path_join d file)"
  using assms
proof (induction fl arbitrary: st)
  case Nil
  then show ?case by simp
next
  case (Cons a fl)
  let ?s1 = "audit_file cfg fs t force d a st"
  have ok1: "store_ok (db ?s1)" using Cons.prems(1) by (rule store_ok_audit_file)
  have rest: "list_all (\<lambda>file. should_exclude cfg (path_join d file) \<or> readable fs (path_join d file)) fl"
    using Cons.prems(2) by simp
  show ?case
  proof (cases "file \<in> set fl")
    case True
    from Cons.IH [OF ok1 rest True Cons.prems(4)] show ?thesis by simp
  next
    case False
    with Cons.prems(3) have a: "a = file" by simp
    with Cons.prems(2,4) have rd: "readable fs (path_join d file)" by simp
    have "synced fs (db ?s1) (path_join d file)"
      unfolding a using Cons.prems(1,4) rd by (intro synced_self)
    moreover have "path_exists fs (path_join d file)" using rd by (simp add: readable_def)
    ultimately show ?thesis using ok1 by (simp add: synced_kept_audit_files)
  qed
qed

lemma audit_walk_synced:
  assumes "store_ok (db st)"
    and "list_all (\<lambda>(d, fl). list_all (\<lambda>file. should_exclude cfg (path_join d file)
                                  \<or> readable fs (path_join d file)) fl) w"
    and "(d, fl) \<in> set w" and "file \<in> set fl" and "\<not> should_exclude cfg (path_join d file)"
  shows "synced fs (db (audit_walk cfg fs t force w st)) (path_join d file)"
  using assms(1,2,3)
proof (induction w arbitrary: st)
  case Nil
  then show ?case by simp
next
  case (Cons a w)
  obtain d' fl' where a: "a = (d', fl')" by (cases a)
  let ?s1 = "audit_files cfg fs t force d' fl' st"
  have ok1: "store_ok (db ?s1)" using Cons.prems(1) by (rule store_ok_audit_files)
  have rest: "list_all (\<lambda>(d, fl). list_all (\<lambda>file. should_exclude cfg (path_join d file)
                                  \<or> readable fs (path_join d file)) fl) w"
    using Cons.prems(2) by simp
  show ?case
  proof (cases "(d, fl) \<in> set w")
    case True
    from Cons.IH [OF ok1 rest True] show ?thesis by (simp add: a)
  next
    case False
    with Cons.prems(3) a have eq: "d' = d" "fl' = fl" by auto
    have all: "list_all (\<lambda>file. should_exclude cfg (path_join d file)
                            \<or> readable fs (path_join d file)) fl"
      using Cons.prems(2) a eq by simp
    then have rd: "readable fs (path_join d file)"
      using assms(4,5) by (auto simp: list_all_iff)
    have "synced fs (db ?s1) (path_join d file)"
      unfolding eq using Cons.prems(1) all assms(4,5) by (intro audit_files_synced)
    moreover have "path_exists fs (path_join d file)" using rd by (simp add: readable_def)
    ultimately show ?thesis using ok1 by (simp add: a synced_kept_audit_walk)
  qed
qed

lemma synced_mark_missing:
  "synced fs (db st) q \<Longrightarrow> synced fs (db (mark_missing fs mf st)) q"
  by (auto simp: mark_missing_def intro: synced_map)

lemma store_ok_reconcile:
  "store_ok (db st) \<Longrightarrow> store_ok (db (reconcile fs t target st))"
  by (rule reconcile_preserves [where P = "\<lambda>s. store_ok (db s)"])
     (auto intro: store_ok_mark_missing)

lemma synced_reconcile:
  "synced fs (db st) q \<Longrightarrow> synced fs (db (reconcile fs t target st)) q"
  by (rule reconcile_preserves [where P = "\<lambda>s. synced fs (db s) q"])
     (auto intro: synced_mark_missing)

lemma steady_step:
  assumes ex: "\<And>q. q \<in> Q \<Longrightarrow> path_exists fs q"
    and mem: "should_exclude cfg (path_join d file) \<or> path_join d file \<in> Q"
    and ok: "store_ok (db s)" and sy: "\<And>q. q \<in> Q \<Longrightarrow> synced fs (db s) q"
    and cnt: "new_files s = 0 \<and> modified_files s = 0 \<and> moved_files s = 0
              \<and> bitrot_detected s = 0 \<and> scanned s = skipped_unchanged s"
  shows "store_ok (db (audit_file cfg fs t False d file s))
         \<and> (\<forall>q \<in> Q. synced fs (db (audit_file cfg fs t False d file s)) q)
         \<and> (new_files (audit_file cfg fs t False d file s) = 0
            \<and> modified_files (audit_file cfg fs t False d file s) = 0
            \<and> moved_files (audit_file cfg fs t False d file s) = 0
            \<and> bitrot_detected (audit_file cfg fs t False d file s) = 0
            \<and> scanned (audit_file cfg fs t False d file s)
                = skipped_unchanged (audit_file cfg fs t False d file s))"
proof (intro conjI)
  show "store_ok (db (audit_file cfg fs t False d file s))"
    using ok by (rule store_ok_audit_file)
  show "\<forall>q \<in> Q. synced fs (db (audit_file cfg fs t False d file s)) q"
    using ok ex sy by (auto intro: synced_audit_file)
  let ?p = "path_join d file"
  have "audit_file cfg fs t False d file s = s
        \<or> (\<exists>rows. audit_file cfg fs t False d file s =
              s\<lparr>scanned := scanned s + 1, db := rows,
                skipped_unchanged := skipped_unchanged s + 1\<rparr>)"
  proof (cases "should_exclude cfg ?p")
    case True
    then show ?thesis by (simp add: audit_file_def)
  next
    case False
    with mem have "synced fs (db s) ?p" by (auto intro: sy)
    from synced_select [OF ok this] obtain row where
      row: "select_by_path (db s) ?p = Some row" "stat fs ?p = Some (file_size row, mtime row)"
      by blast
    from audit_file_fast_path [OF ok False row(2) row(1), of False t]
    show ?thesis by auto
  qed
  then show "new_files (audit_file cfg fs t False d file s) = 0"
    "modified_files (audit_file cfg fs t False d file s) = 0"
    "moved_files (audit_file cfg fs t False d file s) = 0"
    "bitrot_detected (audit_file cfg fs t False d file s) = 0"
    "scanned (audit_file cfg fs t False d file s)
      = skipped_unchanged (audit_file cfg fs t False d file s)"
    using cnt by auto
qed

lemma mark_missing_counters:
  "new_files (mark_missing fs mf s) = new_files s
   \<and> modified_files (mark_missing fs mf s) = modified_files s
   \<and> moved_files (mark_missing fs mf s) = moved_files s
   \<and> bitrot_detected (mark_missing fs mf s) = bitrot_detected s
   \<and> scanned (mark_missing fs mf s) = scanned s
   \<and> skipped_unchanged (mark_missing fs mf s) = skipped_unchanged s"
  by (simp add: mark_missing_def)

section \<open>The sweep after the walk\<close>

lemma sql_like_percent: "sql_like ''%'' s"
  by (induction s) auto

lemma sql_like_skip: "sql_like ps s \<Longrightarrow> sql_like (CHR ''%'' # ps) (xs @ s)"
proof (induction xs)
  case Nil
  then show ?case by (cases s) auto
next
  case (Cons x xs)
  then show ?case by simp
qed

lemma sql_like_prefix: "sql_like (r @ ''%'') (r @ s)"
proof (induction r)
  case Nil
  show ?case using sql_like_percent by simp
next
  case (Cons c r)
  show ?case
  proof (cases "c = CHR ''%''")
    case True
    from sql_like_skip [OF Cons, of "[c]"] True show ?thesis by simp
  next
    case False
    with Cons show ?thesis by simp
  qed
qed

lemma mark_missing_db:
  "db (mark_missing fs p st) =
     map (\<lambda>r. if file_path r = p \<and> \<not> path_exists fs (file_path r) then r\<lparr>status := Missing\<rparr> else r)
       (db st)"
proof (cases "path_exists fs p")
  case True
  then have "map (\<lambda>r. if file_path r = p \<and> \<not> path_exists fs (file_path r)
                     then r\<lparr>status := Missing\<rparr> else r) (db st) = db st"
    by (intro map_idI) auto
  with True show ?thesis by (simp add: mark_missing_def)
next
  case False
  then show ?thesis by (auto simp: mark_missing_def)
qed

lemma fold_mark_missing_db:
  "db (fold (mark_missing fs) ps st) =
     map (\<lambda>r. if file_path r \<in> set ps \<and> \<not> path_exists fs (file_path r)
              then r\<lparr>status := Missing\<rparr> else r) (db st)"
proof (induction ps arbitrary: st)
  case Nil
  then show ?case by (simp add: map_idI)
next
  case (Cons p ps)
  show ?case
    by (simp add: Cons mark_missing_db) auto
qed

lemma reconcile_db:
  assumes "store_ok (db st)"
  shows "db (reconcile fs t target st) =
     map (\<lambda>r. if stale_active target t r \<and> \<not> path_exists fs (file_path r)
              then r\<lparr>status := Missing\<rparr> else r) (db st)"
proof -
  have "file_path r \<in> set (map file_path (filter (stale_active target t) (db st)))
        \<longleftrightarrow> stale_active target t r" if r: "r \<in> set (db st)" for r
  proof
    assume "file_path r \<in> set (map file_path (filter (stale_active target t) (db st)))"
    then obtain r' where r': "r' \<in> set (db st)" "stale_active target t r'"
      "file_path r' = file_path r" by auto
    with store_ok_same_path [OF assms r'(1) r] show "stale_active target t r" by simp
  next
    assume "stale_active target t r"
    with r show "file_path r \<in> set (map file_path (filter (stale_active target t) (db st)))"
      by auto
  qed
  then show ?thesis
    unfolding reconcile_def Let_def fold_mark_missing_db by (intro map_cong refl) simp
qed

lemma missing_ids_update:
  assumes "\<And>r. row_id (f r) = row_id r" "\<And>r. status (f r) \<noteq> Missing"
  shows "missing_ids (update_by_id rows i f) \<subseteq> missing_ids rows"
  using assms by (induction rows) (auto simp: missing_ids_def update_by_id_def)

lemma missing_ids_append:
  "status r \<noteq> Missing \<Longrightarrow> missing_ids (rows @ [r]) = missing_ids rows"
  by (simp add: missing_ids_def)

lemma missing_ids_audit_known:
  "missing_ids (db (audit_known fs t force p fsize mt row st)) \<subseteq> missing_ids (db st)"
  by (simp add: audit_known_def Let_def calculate_sha256_def missing_ids_update
      split: option.splits)

lemma missing_ids_audit_unknown:
  "missing_ids (db (audit_unknown fs t p file fsize mt st)) \<subseteq> missing_ids (db st)"
  by (simp add: audit_unknown_def Let_def calculate_sha256_def processing_error_def
      retarget_by_id_def insert_row_def missing_ids_append missing_ids_update
      split: option.splits)

lemma missing_ids_audit_file:
  "missing_ids (db (audit_file cfg fs t force d file st)) \<subseteq> missing_ids (db st)"
proof -
  have k: "missing_ids (db (audit_known fs t force p fsize mt row (st\<lparr>scanned := n\<rparr>)))
           \<subseteq> missing_ids (db st)" for p fsize mt row n
    using missing_ids_audit_known [of fs t force p fsize mt row "st\<lparr>scanned := n\<rparr>"] by simp
  have u: "missing_ids (db (audit_unknown fs t p file fsize mt (st\<lparr>scanned := n\<rparr>)))
           \<subseteq> missing_ids (db st)" for p fsize mt n
    using missing_ids_audit_unknown [where st = "st\<lparr>scanned := n\<rparr>"] by simp
  show ?thesis
    by (simp add: audit_file_def Let_def processing_error_def k u split: option.splits prod.splits)
qed

lemma missing_ids_audit_walk:
  "missing_ids (db (audit_walk cfg fs t force w st)) \<subseteq> missing_ids (db st)"
proof (rule audit_walk_preserves [where P = "\<lambda>s. missing_ids (db s) \<subseteq> missing_ids (db st)"])
  fix d fname and s :: audit_state
  assume "missing_ids (db s) \<subseteq> missing_ids (db st)"
  with missing_ids_audit_file [of cfg fs t force d fname s]
  show "missing_ids (db (audit_file cfg fs t force d fname s)) \<subseteq> missing_ids (db st)"
    by (rule subset_trans)
qed simp

section \<open>The duplicate analysis computes the specified report\<close>

lemma dup_step_members:
  "map (\<lambda>r. (file_path r, file_size r)) (spec_members target rows h) =
   filter (\<lambda>f. \<not> contains ''/Archive/'' (fst f))
     (map (\<lambda>r. (file_path r, file_size r))
        (filter (\<lambda>r. sha256_hash r = h \<and> status r = Active
                     \<and> sql_like (target @ ''%'') (file_path r)) rows))"
  by (induction rows) (auto simp: spec_members_def in_scope_def)

lemma dup_step_spec:
  "dup_step known rows target hc rep =
     (if spec_keep known target rows (fst hc)
      then rep\<lparr>total_wasted_space := total_wasted_space rep + spec_wasted target rows (fst hc),
               duplicate_count := duplicate_count rep
                 + (length (spec_members target rows (fst hc)) - 1),
               result := result rep @ [spec_group target rows (fst hc)]\<rparr>
      else rep)"
proof -
  let ?m = "spec_members target rows (fst hc)"
  let ?af = "map (\<lambda>r. (file_path r, file_size r)) ?m"
  have set_eq: "set (map fst ?af) = set (map file_path ?m)"
    by (simp add: comp_def)
  have first: "snd (?af ! 0) = file_size (hd ?m)" if "1 < length ?m"
    using that by (cases ?m) auto
  show ?thesis
    unfolding dup_step_def Let_def dup_step_members [symmetric]
    by (auto simp: spec_keep_def spec_suppressed_def spec_wasted_def spec_group_def set_eq first
        comp_def split: option.splits)
qed

lemma fold_dup_step:
  "fold (dup_step known rows target) hcs rep =
     rep\<lparr>total_wasted_space := total_wasted_space rep
            + sum_list (map (spec_wasted target rows)
                (filter (spec_keep known target rows) (map fst hcs))),
         duplicate_count := duplicate_count rep
            + sum_list (map (\<lambda>h. length (spec_members target rows h) - 1)
                (filter (spec_keep known target rows) (map fst hcs))),
         result := result rep
            @ map (spec_group target rows) (filter (spec_keep known target rows) (map fst hcs))\<rparr>"
proof (induction hcs arbitrary: rep)
  case Nil
  then show ?case by simp
next
  case (Cons hc hcs)
  note step = dup_step_spec [of known rows target hc rep]
  show ?case
  proof (cases "spec_keep known target rows (fst hc)")
    case True
    then show ?thesis by (simp add: step Cons)
  next
    case False
    then show ?thesis by (simp add: step Cons)
  qed
qed

lemma duplicate_hashes_fst:
  "map fst (duplicate_hashes rows target) =
     filter (\<lambda>h. 1 < length (filter (\<lambda>r. sha256_hash r = h) (filter (in_scope target) rows)))
       (spec_hashes target rows)"
  by (simp add: duplicate_hashes_def spec_hashes_def Let_def filter_map comp_def)

lemma members_le_count:
  "length (spec_members target rows h)
     \<le> length (filter (\<lambda>r. sha256_hash r = h) (filter (in_scope target) rows))"
proof -
  have "spec_members target rows h =
        filter (\<lambda>r. \<not> contains ''/Archive/'' (file_path r))
          (filter (\<lambda>r. sha256_hash r = h) (filter (in_scope target) rows))"
    by (auto simp: spec_members_def intro: filter_cong)
  then show ?thesis by (simp only: length_filter_le)
qed

lemma reported_hashes:
  "filter (spec_keep known target rows) (map fst (duplicate_hashes rows target))
   = filter (spec_keep known target rows) (spec_hashes target rows)"
  unfolding duplicate_hashes_fst filter_filter
  using members_le_count [of target rows]
  by (intro filter_cong refl) (auto simp: spec_keep_def dest: less_le_trans)

lemma find_duplicates_spec:
  "find_duplicates target known_data dbfile =
     (Some (init_db dbfile), spec_report (load_known_dupes known_data) target (init_db dbfile))"
  by (simp add: find_duplicates_def spec_report_def Let_def fold_dup_step reported_hashes)

lemma spec_keep_no_known:
  "spec_keep Map.empty target rows h \<longleftrightarrow> 1 < length (spec_members target rows h)"
  by (simp add: spec_keep_def spec_suppressed_def)



section \<open>Evaluating concrete runs\<close>

lemmas example_defs = example_cfg_def fs_one_def fs_two_def row_a_def row_b_def row_old_def

lemmas eval_defs = should_exclude_def lower_def lower_char_def path_join_def
  select_by_path_def store_ok_def start_state_def

lemmas run_defs = run_audit_def init_db_def start_state_def audit_file_def audit_known_def
  audit_unknown_def calculate_sha256_def processing_error_def reconcile_def mark_missing_def
  stale_active_def update_by_id_def select_by_hash_size_def retarget_by_id_def insert_row_def
  path_taken_def next_id_def Let_def

lemmas dup_defs = find_duplicates_def load_known_dupes_def add_known_def init_db_def
  duplicate_hashes_def in_scope_def dup_step_def dup_row_def three_rows_def lower_char_def Let_def

section \<open>The classifier\<close>

text \<open>
  C3. A scanned file that has a row at its path, whose size and modification time equal
  the row's, is handled on the fast path when no re-hash is forced: the loop body counts
  it as scanned and as unchanged, sets \<open>last_seen\<close> and \<open>status = 'active'\<close> on the row
  at that path and changes nothing else in the table (so the row keeps its size, mtime
  and hash), and \<open>calculate_sha256\<close> is not called (the list of hashed paths is as
  before).
\<close>

theorem unchanged_fast_path:
  assumes "store_ok (db st)"
    and "\<not> should_exclude cfg (path_join d file)"
    and "stat fs (path_join d file) = Some (fsize, mt)"
    and "select_by_path (db st) (path_join d file) = Some row"
    and "\<not> force" and "file_size row = fsize" and "mtime row = mt"
  shows "audit_file cfg fs t force d file st =
           st\<lparr>scanned := scanned st + 1,
              db := map (\<lambda>r. if file_path r = path_join d file
                              then r\<lparr>last_seen := t, status := Active\<rparr> else r) (db st),
              skipped_unchanged := skipped_unchanged st + 1\<rparr>
         \<and> hashed (audit_file cfg fs t force d file st) = hashed st"
  using audit_file_fast_path [OF assms, of t] by simp

text \<open>The fast path on \<open>/data/a.txt\<close>, whose row has the size and mtime on disk.\<close>

theorem unchanged_fast_path_witness:
  "audit_file example_cfg fs_one 9000 False ''/data'' ''a.txt'' (start_state [row_a ''h1'']) =
     (start_state [(row_a ''h1'')\<lparr>last_seen := 9000\<rparr>])\<lparr>scanned := 1, skipped_unchanged := 1\<rparr>
   \<and> hashed (audit_file example_cfg fs_one 9000 False ''/data'' ''a.txt''
        (start_state [row_a ''h1''])) = []"
proof -
  have p: "path_join ''/data'' ''a.txt'' = ''/data/a.txt''"
    by (simp add: path_join_def)
  have h1: "store_ok (db (start_state [row_a ''h1'']))"
    by (simp add: eval_defs)
  have h2: "\<not> should_exclude example_cfg (path_join ''/data'' ''a.txt'')"
    by (simp add: eval_defs example_defs)
  have h3: "stat fs_one (path_join ''/data'' ''a.txt'') = Some (10, 5)"
    by (simp add: p fs_one_def)
  have h4: "select_by_path (db (start_state [row_a ''h1''])) (path_join ''/data'' ''a.txt'')
            = Some (row_a ''h1'')"
    by (simp add: p eval_defs example_defs)
  have h5: "\<not> False" "file_size (row_a ''h1'') = 10" "mtime (row_a ''h1'') = 5"
    by (simp_all add: row_a_def)
  from unchanged_fast_path [OF h1 h2 h3 h4 h5, of 9000]
  show ?thesis by (simp add: p start_state_def row_a_def)
qed

text \<open>
  C2. A scanned file with no row at its path, once hashed: if some row with the same
  digest and size has a path that is no longer on disk, the first such row is rewritten in
  place (path, name, mtime, last_seen; status \<open>'active'\<close>), the move counter goes up by
  one, the table then holds exactly one row for the new path and none for the old one.
  If there is no such row (no match, or every match still on disk), a new row is appended
  and the new-file counter goes up by one.
\<close>

theorem unknown_path_moved_or_new:
  assumes ok: "store_ok (db st)"
    and nex: "\<not> should_exclude cfg (path_join d file)"
    and stat: "stat fs (path_join d file) = Some (fsize, mt)"
    and unknown: "select_by_path (db st) (path_join d file) = None"
    and hash: "read_sha256 fs (path_join d file) = Some h" "h \<noteq> []"
  shows "(\<forall>mc. find (vacated_match fs h fsize) (db st) = Some mc \<longrightarrow>
            db (audit_file cfg fs t force d file st) =
              map (\<lambda>r. if r = mc
                        then r\<lparr>file_path := path_join d file, file_name := file, mtime := mt,
                               last_seen := t, status := Active\<rparr>
                        else r) (db st)
            \<and> moved_files (audit_file cfg fs t force d file st) = moved_files st + 1
            \<and> new_files (audit_file cfg fs t force d file st) = new_files st
            \<and> length (filter (\<lambda>r. file_path r = path_join d file)
                 (db (audit_file cfg fs t force d file st))) = 1
            \<and> file_path mc \<notin> file_path ` set (db (audit_file cfg fs t force d file st)))
       \<and> (find (vacated_match fs h fsize) (db st) = None \<longrightarrow>
            db (audit_file cfg fs t force d file st) =
              db st @ [\<lparr>row_id = next_id (db st), file_path = path_join d file, file_name = file,
                        file_size = fsize, mtime = mt, sha256_hash = h, last_seen = t,
                        status = Active\<rparr>]
            \<and> new_files (audit_file cfg fs t force d file st) = new_files st + 1
            \<and> moved_files (audit_file cfg fs t force d file st) = moved_files st
            \<and> length (filter (\<lambda>r. file_path r = path_join d file)
                 (db (audit_file cfg fs t force d file st))) = 1)"
proof -
  let ?p = "path_join d file"
  let ?st' = "audit_file cfg fs t force d file st"
  let ?f = "\<lambda>r. r\<lparr>file_path := ?p, file_name := file, mtime := mt, last_seen := t,
                   status := Active\<rparr>"
  from unknown have fresh: "?p \<notin> file_path ` set (db st)"
    by (simp add: select_by_path_None)
  have fresh': "file_path r \<noteq> ?p" if "r \<in> set (db st)" for r
    using fresh that by (auto simp: image_iff)
  have cand: "find (\<lambda>mc. \<not> path_exists fs (file_path mc)) (select_by_hash_size (db st) h fsize)
              = find (vacated_match fs h fsize) (db st)"
    by (simp add: select_by_hash_size_def find_filter vacated_match_def [abs_def] conj_assoc)
  have unfold: "?st' = audit_unknown fs t ?p file fsize mt (st\<lparr>scanned := scanned st + 1\<rparr>)"
    using nex stat unknown by (simp add: audit_file_def Let_def)
  have moved: "db ?st' = map (\<lambda>r. if r = mc then ?f r else r) (db st)
        \<and> moved_files ?st' = moved_files st + 1 \<and> new_files ?st' = new_files st
        \<and> length (filter (\<lambda>r. file_path r = ?p) (db ?st')) = 1
        \<and> file_path mc \<notin> file_path ` set (db ?st')"
    if mc: "find (vacated_match fs h fsize) (db st) = Some mc" for mc
  proof -
    from mc have mem: "mc \<in> set (db st)" by (auto simp: find_Some_iff)
    have upd: "update_by_id (db st) (row_id mc) ?f = map (\<lambda>r. if r = mc then ?f r else r) (db st)"
      by (rule update_by_id_row [OF ok mem])
    have dbeq: "db ?st' = map (\<lambda>r. if r = mc then ?f r else r) (db st)"
      and mv: "moved_files ?st' = moved_files st + 1" and nw: "new_files ?st' = new_files st"
      using hash mc fresh
      by (simp_all add: unfold audit_unknown_def calculate_sha256_def Let_def cand
          retarget_fresh upd)
    have "filter (\<lambda>r. file_path r = ?p) (map (\<lambda>r. if r = mc then ?f r else r) (db st))
          = map (\<lambda>r. if r = mc then ?f r else r) (filter (\<lambda>r. r = mc) (db st))"
      unfolding filter_map
      by (intro arg_cong [where f = "map _"] filter_cong) (auto simp: fresh')
    then have one: "length (filter (\<lambda>r. file_path r = ?p) (db ?st')) = 1"
      using count_one [OF store_ok_distinct [OF ok] mem] by (simp add: dbeq)
    have gone: "file_path mc \<notin> file_path ` set (db ?st')"
    proof
      assume "file_path mc \<in> file_path ` set (db ?st')"
      then obtain r where r: "r \<in> set (db st)"
        and eq: "file_path (if r = mc then ?f r else r) = file_path mc"
        unfolding dbeq by (auto simp: image_iff)
      show False
      proof (cases "r = mc")
        case True
        with eq have "file_path mc = ?p" by simp
        with fresh' [OF mem] show False by simp
      next
        case False
        with eq have "file_path r = file_path mc" by simp
        with store_ok_same_path [OF ok r mem] False show False by simp
      qed
    qed
    from dbeq mv nw one gone show ?thesis by simp
  qed
  have new: "db ?st' = db st @ [\<lparr>row_id = next_id (db st), file_path = ?p, file_name = file,
                        file_size = fsize, mtime = mt, sha256_hash = h, last_seen = t,
                        status = Active\<rparr>]
        \<and> new_files ?st' = new_files st + 1 \<and> moved_files ?st' = moved_files st
        \<and> length (filter (\<lambda>r. file_path r = ?p) (db ?st')) = 1"
    if none: "find (vacated_match fs h fsize) (db st) = None"
  proof -
    have nofilter: "filter (\<lambda>r. file_path r = ?p) (db st) = []"
      by (auto simp: filter_empty_conv fresh')
    show ?thesis
      using hash none fresh
      by (simp add: unfold audit_unknown_def calculate_sha256_def Let_def cand
          insert_row_fresh nofilter)
  qed
  from moved new show ?thesis by blast
qed

text \<open>
  \<open>/data/old.txt\<close> was renamed to \<open>/data/a.txt\<close>: its row is retargeted. And
  \<open>/data/b.txt\<close> is a byte-identical copy of \<open>/data/a.txt\<close>, which is still on disk:
  the copy gets a row of its own.
\<close>

theorem unknown_path_moved_or_new_witness:
  "db (audit_file example_cfg fs_one 9000 False ''/data'' ''a.txt'' (start_state [row_old])) =
     [row_old\<lparr>file_path := ''/data/a.txt'', file_name := ''a.txt'', mtime := 5,
              last_seen := 9000\<rparr>]
   \<and> moved_files (audit_file example_cfg fs_one 9000 False ''/data'' ''a.txt''
        (start_state [row_old])) = 1
   \<and> new_files (audit_file example_cfg fs_one 9000 False ''/data'' ''a.txt''
        (start_state [row_old])) = 0
   \<and> db (audit_file example_cfg fs_two 9000 False ''/data'' ''b.txt''
        (start_state [row_a ''h2''])) = [row_a ''h2'', row_b\<lparr>last_seen := 9000\<rparr>]
   \<and> moved_files (audit_file example_cfg fs_two 9000 False ''/data'' ''b.txt''
        (start_state [row_a ''h2''])) = 0
   \<and> new_files (audit_file example_cfg fs_two 9000 False ''/data'' ''b.txt''
        (start_state [row_a ''h2''])) = 1"
proof -
  have pa: "path_join ''/data'' ''a.txt'' = ''/data/a.txt''"
    and pb: "path_join ''/data'' ''b.txt'' = ''/data/b.txt''"
    by (simp_all add: path_join_def)
  have a1: "store_ok (db (start_state [row_old]))"
    by (simp add: eval_defs)
  have a2: "\<not> should_exclude example_cfg (path_join ''/data'' ''a.txt'')"
    by (simp add: eval_defs example_defs)
  have a3: "stat fs_one (path_join ''/data'' ''a.txt'') = Some (10, 5)"
    by (simp add: pa fs_one_def)
  have a4: "select_by_path (db (start_state [row_old])) (path_join ''/data'' ''a.txt'') = None"
    by (simp add: pa eval_defs example_defs)
  have a5: "read_sha256 fs_one (path_join ''/data'' ''a.txt'') = Some ''h2''" "''h2'' \<noteq> []"
    by (simp_all add: pa fs_one_def)
  have af: "find (vacated_match fs_one ''h2'' 10) (db (start_state [row_old])) = Some row_old"
    by (simp add: vacated_match_def start_state_def row_old_def fs_one_def)
  have b1: "store_ok (db (start_state [row_a ''h2'']))"
    by (simp add: eval_defs)
  have b2: "\<not> should_exclude example_cfg (path_join ''/data'' ''b.txt'')"
    by (simp add: eval_defs example_defs)
  have b3: "stat fs_two (path_join ''/data'' ''b.txt'') = Some (10, 7)"
    by (simp add: pb fs_two_def)
  have b4: "select_by_path (db (start_state [row_a ''h2''])) (path_join ''/data'' ''b.txt'') = None"
    by (simp add: pb eval_defs example_defs)
  have b5: "read_sha256 fs_two (path_join ''/data'' ''b.txt'') = Some ''h2''" "''h2'' \<noteq> []"
    by (simp_all add: pb fs_two_def)
  have bf: "find (vacated_match fs_two ''h2'' 10) (db (start_state [row_a ''h2''])) = None"
    by (simp add: vacated_match_def start_state_def row_a_def fs_two_def)
  from unknown_path_moved_or_new [OF a1 a2 a3 a4 a5, of 9000 False] af
  have moved: "db (audit_file example_cfg fs_one 9000 False ''/data'' ''a.txt''
                 (start_state [row_old])) =
       [row_old\<lparr>file_path := ''/data/a.txt'', file_name := ''a.txt'', mtime := 5,
                last_seen := 9000\<rparr>]
     \<and> moved_files (audit_file example_cfg fs_one 9000 False ''/data'' ''a.txt''
          (start_state [row_old])) = 1
     \<and> new_files (audit_file example_cfg fs_one 9000 False ''/data'' ''a.txt''
          (start_state [row_old])) = 0"
    by (simp add: pa start_state_def row_old_def)
  from unknown_path_moved_or_new [OF b1 b2 b3 b4 b5, of 9000 False] bf
  have new: "db (audit_file example_cfg fs_two 9000 False ''/data'' ''b.txt''
                 (start_state [row_a ''h2''])) = [row_a ''h2'', row_b\<lparr>last_seen := 9000\<rparr>]
     \<and> moved_files (audit_file example_cfg fs_two 9000 False ''/data'' ''b.txt''
          (start_state [row_a ''h2''])) = 0
     \<and> new_files (audit_file example_cfg fs_two 9000 False ''/data'' ''b.txt''
          (start_state [row_a ''h2''])) = 1"
    by (simp add: pb start_state_def row_a_def row_b_def next_id_def)
  from moved new show ?thesis by simp
qed

subsection \<open>Bit-rot\<close>

text \<open>
  C1. The file \<open>/data/a.txt\<close> has a row with the size and mtime found on disk and digest
  \<open>h1\<close>; its content now hashes to \<open>h2\<close>. With a forced re-hash the run counts it as
  modified: the row gets the new digest with status \<open>'active'\<close>, nothing is logged, and
  the bit-rot counter and list stay empty.
\<close>

theorem forced_rehash_same_stat_is_modified:
  "run_audit example_cfg fs_one 9000 ''/data'' True (Some [row_a ''h1'']) =
     (Some [(row_a ''h1'')\<lparr>sha256_hash := ''h2'', last_seen := 9000\<rparr>],
      Inr ((start_state [(row_a ''h1'')\<lparr>sha256_hash := ''h2'', last_seen := 9000\<rparr>])
             \<lparr>scanned := 1, modified_files := 1, hashed := [''/data/a.txt'']\<rparr>))"
  by (simp add: run_defs eval_defs example_defs)

text \<open>
  C10. If no row is corrupted before a run, none is after it, whatever the target, the
  file system and the force flag, and the run's bit-rot counter is zero; the branch of
  \<open>audit_known\<close> that counts bit-rot is never taken.
\<close>

theorem bitrot_branch_unreachable:
  assumes "no_corrupted (init_db dbfile)"
  shows "no_corrupted (init_db (fst (run_audit cfg fs t target force dbfile)))
         \<and> (case snd (run_audit cfg fs t target force dbfile) of
               Inl e \<Rightarrow> True
             | Inr st \<Rightarrow> bitrot_detected st = 0)
         \<and> bitrot_detected (audit_known fs t force p fsize mt row s) = bitrot_detected s"
proof (cases "isdir fs target")
  case False
  then show ?thesis using assms by (simp add: run_audit_def audit_known_bitrot)
next
  case True
  let ?P = "\<lambda>s. no_corrupted (db s) \<and> bitrot_detected s = 0"
  let ?s1 = "audit_walk cfg fs t force (walk fs target) (start_state (init_db dbfile))"
  have "?P (start_state (init_db dbfile))"
    using assms by (simp add: start_state_def)
  then have "?P ?s1"
    by (intro audit_walk_preserves [where P = ?P] audit_file_bitrot_free)
  then have "?P (reconcile fs t target ?s1)"
    by (intro reconcile_preserves [where P = ?P] mark_missing_bitrot_free)
  then show ?thesis
    using True by (simp add: run_audit_def Let_def init_db_def audit_known_bitrot)
qed

theorem bitrot_branch_unreachable_witness:
  "no_corrupted (init_db (Some [row_a ''h1'']))
   \<and> no_corrupted (init_db (fst (run_audit example_cfg fs_one 9000 ''/data'' True
        (Some [row_a ''h1'']))))
   \<and> (case snd (run_audit example_cfg fs_one 9000 ''/data'' True (Some [row_a ''h1''])) of
         Inl e \<Rightarrow> True
       | Inr st \<Rightarrow> bitrot_detected st = 0)"
proof -
  have h: "no_corrupted (init_db (Some [row_a ''h1'']))"
    by (simp add: no_corrupted_def init_db_def row_a_def)
  from bitrot_branch_unreachable [OF h] h show ?thesis by blast
qed

section \<open>Two runs in succession\<close>

text \<open>
  C4. Over a tree of readable files, with a table that satisfies its constraints, an
  audit followed by a second audit without forced re-hash on the same file system (the
  clocks of the two runs and the force flag of the first are arbitrary) gives, in the
  second run, no new, modified or moved file and no bit-rot, and as many unchanged files
  as scanned ones.
\<close>

theorem second_audit_all_unchanged:
  assumes ok: "store_ok (init_db dbfile)"
    and tree: "readable_tree cfg fs target"
    and run1: "run_audit cfg fs t1 target force dbfile = (dbfile1, Inr st1)"
    and run2: "run_audit cfg fs t2 target False dbfile1 = (dbfile2, Inr st2)"
  shows "new_files st2 = 0 \<and> modified_files st2 = 0 \<and> moved_files st2 = 0
         \<and> bitrot_detected st2 = 0 \<and> scanned st2 = skipped_unchanged st2"
proof -
  let ?w = "walk fs target"
  let ?Q = "{q. \<exists>d fl file. (d, fl) \<in> set ?w \<and> file \<in> set fl \<and> q = path_join d file
                 \<and> \<not> should_exclude cfg q}"
  let ?good = "\<lambda>(d, fl). list_all (\<lambda>file. should_exclude cfg (path_join d file)
                                  \<or> readable fs (path_join d file)) fl"
  from tree have all: "list_all ?good ?w" by (simp add: readable_tree_def)
  have exQ: "path_exists fs q" if "q \<in> ?Q" for q
    using that all by (auto simp: list_all_iff readable_def)
  from run1 have dir: "isdir fs target"
    by (auto simp: run_audit_def split: if_splits)
  let ?a1 = "audit_walk cfg fs t1 force ?w (start_state (init_db dbfile))"
  from run1 dir have st1: "st1 = reconcile fs t1 target ?a1" and db1: "dbfile1 = Some (db st1)"
    by (auto simp: run_audit_def Let_def)
  have ok0: "store_ok (db (start_state (init_db dbfile)))"
    using ok by (simp add: start_state_def)
  have ok1: "store_ok (db st1)"
    unfolding st1 by (intro store_ok_reconcile store_ok_audit_walk ok0)
  have sy1: "synced fs (db st1) q" if "q \<in> ?Q" for q
  proof -
    from that obtain d fl fname where m: "(d, fl) \<in> set ?w" "fname \<in> set fl"
      "q = path_join d fname" "\<not> should_exclude cfg (path_join d fname)" by auto
    have "synced fs (db ?a1) (path_join d fname)"
      using ok0 all m(1,2,4) by (rule audit_walk_synced)
    then show ?thesis unfolding st1 m(3) by (rule synced_reconcile)
  qed
  let ?P = "\<lambda>s::audit_state. store_ok (db s) \<and> (\<forall>q \<in> ?Q. synced fs (db s) q)
              \<and> (new_files s = 0 \<and> modified_files s = 0 \<and> moved_files s = 0
                 \<and> bitrot_detected s = 0 \<and> scanned s = skipped_unchanged s)"
  let ?s0 = "start_state (init_db dbfile1)"
  let ?a2 = "audit_walk cfg fs t2 False ?w ?s0"
  have P0: "?P ?s0"
    using ok1 sy1 by (simp add: db1 init_db_def start_state_def)
  have P2: "?P ?a2"
  proof (rule audit_walk_preserves_mem [where P = ?P, OF _ P0])
    fix d fl fname and s :: audit_state
    assume m: "(d, fl) \<in> set ?w" "fname \<in> set fl" and P: "?P s"
    have mem: "should_exclude cfg (path_join d fname) \<or> path_join d fname \<in> ?Q"
      using m by auto
    from P have a: "store_ok (db s)" and b: "\<And>q. q \<in> ?Q \<Longrightarrow> synced fs (db s) q"
      and c: "new_files s = 0 \<and> modified_files s = 0 \<and> moved_files s = 0
              \<and> bitrot_detected s = 0 \<and> scanned s = skipped_unchanged s"
      by blast+
    show "?P (audit_file cfg fs t2 False d fname s)"
      by (rule steady_step [where Q = ?Q, OF exQ mem a b c])
  qed
  let ?C = "\<lambda>s::audit_state. new_files s = 0 \<and> modified_files s = 0 \<and> moved_files s = 0
              \<and> bitrot_detected s = 0 \<and> scanned s = skipped_unchanged s"
  have "?C (reconcile fs t2 target ?a2)"
    by (rule reconcile_preserves [where P = ?C])
       (use P2 in \<open>simp_all add: mark_missing_counters\<close>)
  moreover from run2 dir have "st2 = reconcile fs t2 target ?a2"
    by (auto simp: run_audit_def Let_def)
  ultimately show ?thesis by simp
qed

text \<open>
  Two audits of \<open>/data\<close> with \<open>a.txt\<close> and \<open>b.txt\<close>, starting without a database:
  the first adds both files, the second finds both unchanged.
\<close>

theorem second_audit_all_unchanged_witness:
  "store_ok (init_db None) \<and> readable_tree example_cfg fs_two ''/data''
   \<and> run_audit example_cfg fs_two 9000 ''/data'' False None =
       (Some [(row_a ''h2'')\<lparr>last_seen := 9000\<rparr>, row_b\<lparr>last_seen := 9000\<rparr>],
        Inr ((start_state [(row_a ''h2'')\<lparr>last_seen := 9000\<rparr>, row_b\<lparr>last_seen := 9000\<rparr>])
               \<lparr>scanned := 2, new_files := 2, hashed := [''/data/a.txt'', ''/data/b.txt'']\<rparr>))
   \<and> run_audit example_cfg fs_two 9100 ''/data'' False
         (Some [(row_a ''h2'')\<lparr>last_seen := 9000\<rparr>, row_b\<lparr>last_seen := 9000\<rparr>]) =
       (Some [(row_a ''h2'')\<lparr>last_seen := 9100\<rparr>, row_b\<lparr>last_seen := 9100\<rparr>],
        Inr ((start_state [(row_a ''h2'')\<lparr>last_seen := 9100\<rparr>, row_b\<lparr>last_seen := 9100\<rparr>])
               \<lparr>scanned := 2, skipped_unchanged := 2\<rparr>))
   \<and> new_files ((start_state [(row_a ''h2'')\<lparr>last_seen := 9100\<rparr>, row_b\<lparr>last_seen := 9100\<rparr>])
               \<lparr>scanned := 2, skipped_unchanged := 2\<rparr>) = 0"
proof -
  have h1: "store_ok (init_db None)"
    by (simp add: init_db_def store_ok_def)
  have h2: "readable_tree example_cfg fs_two ''/data''"
    by (simp add: readable_tree_def readable_def eval_defs example_defs)
  have r1: "run_audit example_cfg fs_two 9000 ''/data'' False None =
       (Some [(row_a ''h2'')\<lparr>last_seen := 9000\<rparr>, row_b\<lparr>last_seen := 9000\<rparr>],
        Inr ((start_state [(row_a ''h2'')\<lparr>last_seen := 9000\<rparr>, row_b\<lparr>last_seen := 9000\<rparr>])
               \<lparr>scanned := 2, new_files := 2, hashed := [''/data/a.txt'', ''/data/b.txt'']\<rparr>))"
    by (simp add: run_defs eval_defs example_defs)
  have r2: "run_audit example_cfg fs_two 9100 ''/data'' False
         (Some [(row_a ''h2'')\<lparr>last_seen := 9000\<rparr>, row_b\<lparr>last_seen := 9000\<rparr>]) =
       (Some [(row_a ''h2'')\<lparr>last_seen := 9100\<rparr>, row_b\<lparr>last_seen := 9100\<rparr>],
        Inr ((start_state [(row_a ''h2'')\<lparr>last_seen := 9100\<rparr>, row_b\<lparr>last_seen := 9100\<rparr>])
               \<lparr>scanned := 2, skipped_unchanged := 2\<rparr>))"
    by (simp add: run_defs eval_defs example_defs)
  from second_audit_all_unchanged [OF h1 h2 r1 r2] h1 h2 r1 r2
  show ?thesis by simp
qed

section \<open>Reconciliation\<close>

text \<open>
  C5, as amended. When the target is a directory, the table after the run is the table
  as the walk left it, with status \<open>'missing'\<close> on exactly the rows that are active,
  whose path matches the pattern \<open>target%\<close> of \<open>LIKE\<close>, whose \<open>last_seen\<close> is more than
  3600 seconds before the run's clock and whose path is not on disk; every other row is
  as the walk left it. The walk itself, over any list of directories and from any state,
  marks no row missing: the rows that are missing after it were missing before it. Every
  path that begins with the target string matches the pattern.
\<close>

theorem reconcile_marks_exactly:
  assumes "store_ok (init_db dbfile)" and "isdir fs target"
  shows "fst (run_audit cfg fs t target force dbfile) =
           Some (map (\<lambda>r. if status r = Active \<and> sql_like (target @ ''%'') (file_path r)
                             \<and> last_seen r < t - 3600 \<and> \<not> path_exists fs (file_path r)
                          then r\<lparr>status := Missing\<rparr> else r)
                  (db (audit_walk cfg fs t force (walk fs target)
                         (start_state (init_db dbfile)))))
         \<and> missing_ids (db (audit_walk cfg fs t force w st)) \<subseteq> missing_ids (db st)
         \<and> sql_like (target @ ''%'') (target @ rest)"
proof -
  let ?a = "audit_walk cfg fs t force (walk fs target) (start_state (init_db dbfile))"
  have "store_ok (db ?a)"
    using assms(1) by (intro store_ok_audit_walk) (simp add: start_state_def)
  from reconcile_db [OF this, of fs t target] assms(2)
  have "fst (run_audit cfg fs t target force dbfile) =
           Some (map (\<lambda>r. if stale_active target t r \<and> \<not> path_exists fs (file_path r)
                          then r\<lparr>status := Missing\<rparr> else r) (db ?a))"
    by (simp add: run_audit_def Let_def)
  also have "(\<lambda>r. if stale_active target t r \<and> \<not> path_exists fs (file_path r)
                          then r\<lparr>status := Missing\<rparr> else r)
           = (\<lambda>r. if status r = Active \<and> sql_like (target @ ''%'') (file_path r)
                             \<and> last_seen r < t - 3600 \<and> \<not> path_exists fs (file_path r)
                          then r\<lparr>status := Missing\<rparr> else r)"
    by (auto simp: stale_active_def fun_eq_iff)
  finally show ?thesis
    using missing_ids_audit_walk sql_like_prefix by simp
qed

text \<open>
  Target \<open>/mnt/backup\<close>: the stale row of the vanished \<open>/mnt/backup/gone.txt\<close> becomes
  missing, the row of \<open>/mnt/other/x.txt\<close> is left alone.
\<close>

theorem reconcile_marks_exactly_witness:
  "store_ok (init_db (Some [row_at 1 ''/mnt/backup/gone.txt'', row_at 2 ''/mnt/other/x.txt'']))
   \<and> isdir fs_backup ''/mnt/backup''
   \<and> fst (run_audit example_cfg fs_backup 9000 ''/mnt/backup'' False
        (Some [row_at 1 ''/mnt/backup/gone.txt'', row_at 2 ''/mnt/other/x.txt''])) =
       Some [(row_at 1 ''/mnt/backup/gone.txt'')\<lparr>status := Missing\<rparr>,
             row_at 2 ''/mnt/other/x.txt'']"
proof -
  let ?rows = "[row_at 1 ''/mnt/backup/gone.txt'', row_at 2 ''/mnt/other/x.txt'']"
  have h1: "store_ok (init_db (Some ?rows))"
    by (simp add: init_db_def store_ok_def row_at_def)
  have h2: "isdir fs_backup ''/mnt/backup''"
    by (simp add: fs_backup_def)
  have w: "db (audit_walk example_cfg fs_backup 9000 False (walk fs_backup ''/mnt/backup'')
             (start_state (init_db (Some ?rows)))) = ?rows"
    by (simp add: fs_backup_def init_db_def start_state_def)
  have l1: "sql_like (''/mnt/backup'' @ ''%'') ''/mnt/backup/gone.txt''"
    using sql_like_prefix [of "''/mnt/backup''" "''/gone.txt''"] by simp
  have l2: "\<not> sql_like (''/mnt/backup'' @ ''%'') ''/mnt/other/x.txt''"
    by (simp add: lower_char_def)
  have m: "map (\<lambda>r. if status r = Active \<and> sql_like (''/mnt/backup'' @ ''%'') (file_path r)
                             \<and> last_seen r < 9000 - 3600 \<and> \<not> path_exists fs_backup (file_path r)
                          then r\<lparr>status := Missing\<rparr> else r) ?rows
           = [(row_at 1 ''/mnt/backup/gone.txt'')\<lparr>status := Missing\<rparr>,
              row_at 2 ''/mnt/other/x.txt'']"
    using l1 l2 by (simp add: row_at_def fs_backup_def)
  from reconcile_marks_exactly [OF h1 h2, of example_cfg 9000 False, THEN conjunct1]
  have "fst (run_audit example_cfg fs_backup 9000 ''/mnt/backup'' False (Some ?rows)) =
       Some [(row_at 1 ''/mnt/backup/gone.txt'')\<lparr>status := Missing\<rparr>,
             row_at 2 ''/mnt/other/x.txt'']"
    unfolding w m .
  with h1 h2 show ?thesis by simp
qed

text \<open>
  C5 as stated: \<open>/mnt/backup2/old.txt\<close> does not lie under \<open>/mnt/backup\<close>, yet an audit
  of \<open>/mnt/backup\<close> marks its stale row missing, because the path begins with the
  target string.
\<close>

theorem reconcile_sibling_prefix_counterexample:
  "fst (run_audit example_cfg fs_backup 9000 ''/mnt/backup'' False
        (Some [row_at 1 ''/mnt/backup2/old.txt''])) =
     Some [(row_at 1 ''/mnt/backup2/old.txt'')\<lparr>status := Missing\<rparr>]
   \<and> status (row_at 1 ''/mnt/backup2/old.txt'') = Active
   \<and> \<not> prefix ''/mnt/backup/'' (file_path (row_at 1 ''/mnt/backup2/old.txt''))"
proof -
  let ?row = "row_at 1 ''/mnt/backup2/old.txt''"
  have ok: "store_ok (db (start_state [?row]))"
    by (simp add: start_state_def store_ok_def)
  have like: "sql_like (''/mnt/backup'' @ ''%'') ''/mnt/backup2/old.txt''"
    using sql_like_prefix [of "''/mnt/backup''" "''2/old.txt''"] by simp
  then have stale: "stale_active ''/mnt/backup'' 9000 ?row"
    by (simp add: stale_active_def row_at_def)
  have "fst (run_audit example_cfg fs_backup 9000 ''/mnt/backup'' False (Some [?row]))
        = Some (db (reconcile fs_backup 9000 ''/mnt/backup'' (start_state [?row])))"
    by (simp add: run_audit_def fs_backup_def init_db_def Let_def)
  also have "db (reconcile fs_backup 9000 ''/mnt/backup'' (start_state [?row]))
        = [?row\<lparr>status := Missing\<rparr>]"
    unfolding reconcile_db [OF ok] using stale
    by (simp add: start_state_def) (simp add: row_at_def fs_backup_def)
  finally show ?thesis by (simp add: row_at_def)
qed

section \<open>Duplicate analysis of the store\<close>

text \<open>
  C6, as amended. Without a known-duplicates file, the analysis opens the store and
  reports, for every hash of an active row matched by the pattern \<open>target%\<close> of \<open>LIKE\<close>
  whose group (the active rows with that hash matched by the pattern, less those with
  \<open>/Archive/\<close> in the path) has more than one member: the hash, the size of the first
  member and the set of member paths; the wasted space is the sum over those groups of
  size times member count less one. On the rows \<open>A\<close>, \<open>B\<close> (hash \<open>H\<close>, size 100) and
  \<open>C\<close> (hash \<open>H2\<close>, size 50) under \<open>/data\<close> it reports the one group \<open>H\<close> with wasted
  space 100. Every path that begins with the target string matches the pattern.
\<close>

theorem duplicate_report_groups:
  "find_duplicates target None dbfile =
     (Some (init_db dbfile), spec_report Map.empty target (init_db dbfile))
   \<and> (spec_keep Map.empty target (init_db dbfile) h
        \<longleftrightarrow> 1 < length (spec_members target (init_db dbfile) h))
   \<and> snd (find_duplicates ''/data'' None (Some three_rows)) =
       \<lparr>result = [\<lparr>hash = ''H'', size_bytes = 100, files = {''/data/A'', ''/data/B''}\<rparr>],
        total_wasted_space = 100, duplicate_count = 1\<rparr>
   \<and> sql_like (target @ ''%'') (target @ rest)"
proof -
  have "find_duplicates target None dbfile =
     (Some (init_db dbfile), spec_report Map.empty target (init_db dbfile))"
    using find_duplicates_spec [of target None dbfile] by (simp add: load_known_dupes_def)
  moreover have "snd (find_duplicates ''/data'' None (Some three_rows)) =
       \<lparr>result = [\<lparr>hash = ''H'', size_bytes = 100, files = {''/data/A'', ''/data/B''}\<rparr>],
        total_wasted_space = 100, duplicate_count = 1\<rparr>"
    by (simp add: dup_defs)
  ultimately show ?thesis
    by (simp add: spec_keep_no_known sql_like_prefix)
qed

text \<open>
  C6 as stated: two byte-identical files recorded under \<open>/mnt/backup2\<close> do not lie under
  \<open>/mnt/backup\<close>, yet the analysis of \<open>/mnt/backup\<close> reports them as a group.
\<close>

theorem duplicate_report_sibling_counterexample:
  "result (snd (find_duplicates ''/mnt/backup'' None
      (Some [row_at 1 ''/mnt/backup2/a.txt'', row_at 2 ''/mnt/backup2/b.txt'']))) =
     [\<lparr>hash = ''h2'', size_bytes = 10,
       files = {''/mnt/backup2/a.txt'', ''/mnt/backup2/b.txt''}\<rparr>]
   \<and> \<not> prefix ''/mnt/backup/'' ''/mnt/backup2/a.txt''
   \<and> \<not> prefix ''/mnt/backup/'' ''/mnt/backup2/b.txt''"
  by (simp add: dup_defs row_at_def)



text \<open>
  C8. \<open>/nowhere\<close> is not a directory and there is no database file. The audit returns
  at once and leaves no database. The duplicate analysis does not look at the target: it
  connects, which creates the database file and the empty table, and writes an empty
  report.
\<close>

theorem duplicates_on_missing_target:
  "\<not> isdir fs_one ''/nowhere''
   \<and> run_audit example_cfg fs_one 9000 ''/nowhere'' False None = (None, Inl TargetNotADirectory)
   \<and> find_duplicates ''/nowhere'' None None =
       (Some [], \<lparr>result = [], total_wasted_space = 0, duplicate_count = 0\<rparr>)"
  by (simp add: run_audit_def fs_one_def find_duplicates_def init_db_def duplicate_hashes_def
      load_known_dupes_def Let_def)

section \<open>The exclusion filter as a predicate\<close>




end
